theory Spec2Isabelle
  imports Complex_Main "HOL-Library.Log_Nat" "HOL-Library.State_Monad"
begin

unbundle bit_operations_syntax

section \<open>The solver state of class MatrixGame\<close>

text \<open>
  The class \<^verbatim>\<open>MatrixGame\<close> of \<^verbatim>\<open>CFRPlusMatrix.cpp\<close> holds the game size, the iteration
  counter, the row-major payoff matrix of player 0, and for each of the two players a
  strategy accumulator and a regret accumulator (\<^verbatim>\<open>vector<double> strategy[2]\<close>,
  \<^verbatim>\<open>vector<double> cfr[2]\<close>).

  Numbers: a C++ \<^verbatim>\<open>double\<close> is modelled as a \<^typ>\<open>real\<close>, so every arithmetic
  operation is exact; rounding, infinities and NaN are outside this model. The C++
  \<^verbatim>\<open>int\<close> values are modelled as unbounded numbers (\<^typ>\<open>nat\<close> for sizes, indices and
  the player index, \<^typ>\<open>int\<close> for the iteration counter, the algorithm selector and
  \<^verbatim>\<open>bestAction\<close>); signed overflow is undefined behaviour in C++ and is not modelled.
  The field \<^verbatim>\<open>size\<close> is named \<open>size_m\<close> here, since \<open>size\<close> is a constant of HOL.
  The overloaded members \<^verbatim>\<open>FictitiousPlay(int)\<close>, \<^verbatim>\<open>CFR(int)\<close> and \<^verbatim>\<open>CFRPlus(int)\<close> are
  named \<open>FictitiousPlay_player\<close>, \<open>CFR_player\<close> and \<open>CFRPlus_player\<close>. The drivers
  \<^verbatim>\<open>Run\<close>, \<^verbatim>\<open>RunMany\<close> and \<^verbatim>\<open>main\<close> (command line, timing, printing) are not modelled.
\<close>

record MatrixGame =
  size_m :: nat
  iterationCount :: int
  payoffs :: "real list"
  strategy :: "real list list"
  cfr :: "real list list"

text \<open>\<^verbatim>\<open>numeric_limits<double>::max()\<close>, the largest finite double: \<open>(2 - 2^-52) * 2^1023\<close>.\<close>

definition DBL_MAX :: real where
  "DBL_MAX = 2 ^ 1024 - 2 ^ 971"

text \<open>
  The constructor \<^verbatim>\<open>MatrixGame(size, rng)\<close>: the accumulators are zero vectors of length
  \<open>size\<close>, the counter is 0, and \<^verbatim>\<open>CreateRandom\<close> fills \<^verbatim>\<open>payoffs[a * size + b]\<close> in
  increasing order of \<open>a * size + b\<close> with successive draws of the generator. The draws
  are the parameter \<open>draws\<close>; \<open>draw_ok\<close> says what
  \<^verbatim>\<open>uniform_real_distribution<double>(-1.0, 1.0)\<close> can return.
\<close>

definition MatrixGame_new :: "nat \<Rightarrow> real list \<Rightarrow> MatrixGame" where
  "MatrixGame_new n draws =
     \<lparr> size_m = n, iterationCount = 0, payoffs = take (n * n) draws,
       strategy = [replicate n 0, replicate n 0],
       cfr = [replicate n 0, replicate n 0] \<rparr>"

definition draw_ok :: "real \<Rightarrow> bool" where
  "draw_ok x \<longleftrightarrow> - 1 \<le> x \<and> x < 1"

section \<open>Queries\<close>

definition GetIterationCount :: "MatrixGame \<Rightarrow> int" where
  "GetIterationCount g = iterationCount g"

definition GetPayoff :: "MatrixGame \<Rightarrow> nat \<Rightarrow> nat \<Rightarrow> nat \<Rightarrow> real" where
  "GetPayoff g p a b =
     (if p = 0 then payoffs g ! (a * size_m g + b)
      else - (payoffs g ! (b * size_m g + a)))"

definition GetNormalizedStrategy :: "MatrixGame \<Rightarrow> nat \<Rightarrow> real list" where
  "GetNormalizedStrategy g player =
     (let sum = fold (\<lambda>i s. s + strategy g ! player ! i) [0..<size_m g] 0
      in if sum > 0
         then map (\<lambda>i. strategy g ! player ! i / sum) [0..<size_m g]
         else map (\<lambda>i. 1 / real (size_m g)) [0..<size_m g])"

definition GetCurrentStrategy :: "MatrixGame \<Rightarrow> nat \<Rightarrow> real list" where
  "GetCurrentStrategy g player =
     (let sum = fold (\<lambda>i s. s + max 0 (cfr g ! player ! i)) [0..<size_m g] 0
      in if sum > 0
         then map (\<lambda>i. if cfr g ! player ! i > 0 then cfr g ! player ! i / sum else 0)
                [0..<size_m g]
         else map (\<lambda>i. 1 / real (size_m g)) [0..<size_m g])"

text \<open>The inner loop of \<^verbatim>\<open>BestResponse\<close>, \<^verbatim>\<open>FictitiousPlay(int)\<close>, \<^verbatim>\<open>CFR(int)\<close> and
  \<^verbatim>\<open>CFRPlus(int)\<close>: \<^verbatim>\<open>for b: sum += ns[b] * GetPayoff(player, a, b)\<close>, starting from 0.\<close>

definition action_value :: "MatrixGame \<Rightarrow> nat \<Rightarrow> real list \<Rightarrow> nat \<Rightarrow> real" where
  "action_value g player ns a =
     fold (\<lambda>b s. s + ns ! b * GetPayoff g player a b) [0..<size_m g] 0"

definition BestResponse :: "MatrixGame \<Rightarrow> nat \<Rightarrow> real" where
  "BestResponse g player =
     (let ns = GetNormalizedStrategy g (player XOR 1)
      in fold (\<lambda>a maxSum.
                 let sum = action_value g player ns a
                 in if sum > maxSum then sum else maxSum)
           [0..<size_m g] (- DBL_MAX))"

definition GetExploitability :: "MatrixGame \<Rightarrow> real" where
  "GetExploitability g = (BestResponse g 0 + BestResponse g 1) / 2"

section \<open>The per-player updates\<close>

text \<open>
  \<^verbatim>\<open>FictitiousPlay(int player)\<close>. The loop keeps \<^verbatim>\<open>(maxSum, bestAction)\<close>, starting at
  \<^verbatim>\<open>(-DBL_MAX, -1)\<close>. The final \<^verbatim>\<open>strategy[player][bestAction]++\<close> writes outside the
  vector when \<^verbatim>\<open>bestAction\<close> is still -1 (undefined behaviour in C++): that is the
  result \<open>None\<close>.
\<close>

definition FictitiousPlay_player :: "MatrixGame \<Rightarrow> nat \<Rightarrow> MatrixGame option" where
  "FictitiousPlay_player g player =
     (let ns = GetNormalizedStrategy g (player XOR 1);
          (maxSum, bestAction) =
            fold (\<lambda>a (maxSum, bestAction).
                    let sum = action_value g player ns a
                    in if sum > maxSum then (sum, int a) else (maxSum, bestAction))
              [0..<size_m g] (- DBL_MAX, - 1)
      in if 0 \<le> bestAction \<and> nat bestAction < length (strategy g ! player)
         then Some (g\<lparr>strategy := (strategy g)[player :=
                       (strategy g ! player)[nat bestAction :=
                          strategy g ! player ! nat bestAction + 1]]\<rparr>)
         else None)"

text \<open>
  The first loop shared by \<^verbatim>\<open>CFR(int)\<close> and \<^verbatim>\<open>CFRPlus(int)\<close>: it fills \<^verbatim>\<open>cfu\<close> (a zero
  vector of length \<open>size\<close> at the start) and accumulates \<^verbatim>\<open>ev\<close>.
\<close>

definition cfu_ev :: "MatrixGame \<Rightarrow> nat \<Rightarrow> real list \<Rightarrow> real list \<Rightarrow> real list \<times> real" where
  "cfu_ev g player sp so =
     fold (\<lambda>a (cfu, ev).
             let c = action_value g player so a
             in (cfu[a := c], ev + sp ! a * c))
       [0..<size_m g] (replicate (size_m g) 0, 0)"

definition CFR_player :: "MatrixGame \<Rightarrow> nat \<Rightarrow> MatrixGame" where
  "CFR_player g player =
     (let sp = GetCurrentStrategy g player;
          so = GetCurrentStrategy g (player XOR 1);
          (cfu, ev) = cfu_ev g player sp so;
          g1 = g\<lparr>cfr := (cfr g)[player :=
                  fold (\<lambda>a r. r[a := r ! a + (cfu ! a - ev)]) [0..<size_m g]
                    (cfr g ! player)]\<rparr>
      in g1\<lparr>strategy := (strategy g1)[player :=
              fold (\<lambda>a s. s[a := s ! a + sp ! a]) [0..<size_m g1]
                (strategy g1 ! player)]\<rparr>)"

definition CFRPlus_player :: "MatrixGame \<Rightarrow> nat \<Rightarrow> MatrixGame" where
  "CFRPlus_player g player =
     (let sp = GetCurrentStrategy g player;
          so = GetCurrentStrategy g (player XOR 1);
          (cfu, ev) = cfu_ev g player sp so;
          g1 = g\<lparr>cfr := (cfr g)[player :=
                  fold (\<lambda>a r. r[a := max 0 (r ! a + cfu ! a - ev)]) [0..<size_m g]
                    (cfr g ! player)]\<rparr>
      in g1\<lparr>strategy := (strategy g1)[player :=
              fold (\<lambda>a s. s[a := s ! a + sp ! a * real_of_int (iterationCount g1)
                                          * real_of_int (iterationCount g1)])
                [0..<size_m g1] (strategy g1 ! player)]\<rparr>)"

section \<open>One iteration\<close>

definition FictitiousPlay :: "MatrixGame \<Rightarrow> MatrixGame option" where
  "FictitiousPlay g =
     (case FictitiousPlay_player (g\<lparr>iterationCount := iterationCount g + 1\<rparr>) 0 of
        None \<Rightarrow> None
      | Some g1 \<Rightarrow> FictitiousPlay_player g1 1)"

definition CFR :: "MatrixGame \<Rightarrow> MatrixGame" where
  "CFR g = CFR_player (CFR_player (g\<lparr>iterationCount := iterationCount g + 1\<rparr>) 0) 1"

definition CFRPlus :: "MatrixGame \<Rightarrow> MatrixGame" where
  "CFRPlus g =
     CFRPlus_player (CFRPlus_player (g\<lparr>iterationCount := iterationCount g + 1\<rparr>) 0) 1"

definition Iteration :: "MatrixGame \<Rightarrow> int \<Rightarrow> MatrixGame option" where
  "Iteration g algorithm =
     (if algorithm = 0 then FictitiousPlay g
      else if algorithm = 1 then Some (CFR g)
      else Some (CFRPlus g))"


section \<open>Method calls on a solver object\<close>

text \<open>
  The public interface of the class as the driver (\<^verbatim>\<open>Run\<close>, \<^verbatim>\<open>main\<close>) uses it: a call
  takes the object and gives back the returned value and the object after the call.
  \<^verbatim>\<open>GetIterationCount\<close> and \<^verbatim>\<open>GetExploitability\<close> are \<^verbatim>\<open>const\<close> member functions: their
  bodies, and the \<^verbatim>\<open>const\<close> helpers \<^verbatim>\<open>BestResponse\<close>, \<^verbatim>\<open>GetNormalizedStrategy\<close> and
  \<^verbatim>\<open>GetPayoff\<close> they call, assign to no member.
\<close>

datatype method_call = Call_Iteration int | Call_GetExploitability | Call_GetIterationCount

datatype returned = Ret_void | Ret_double real | Ret_int int

fun call_method :: "MatrixGame \<Rightarrow> method_call \<Rightarrow> (returned \<times> MatrixGame) option" where
  "call_method g (Call_Iteration algorithm) =
     (case Iteration g algorithm of None \<Rightarrow> None | Some g' \<Rightarrow> Some (Ret_void, g'))"
| "call_method g Call_GetExploitability = Some (Ret_double (GetExploitability g), g)"
| "call_method g Call_GetIterationCount = Some (Ret_int (GetIterationCount g), g)"

fun call_methods :: "MatrixGame \<Rightarrow> method_call list \<Rightarrow> (returned list \<times> MatrixGame) option" where
  "call_methods g [] = Some ([], g)"
| "call_methods g (c # cs) =
     (case call_method g c of
        None \<Rightarrow> None
      | Some (r, g1) \<Rightarrow>
          (case call_methods g1 cs of
             None \<Rightarrow> None
           | Some (rs, g2) \<Rightarrow> Some (r # rs, g2)))"

fun is_query :: "method_call \<Rightarrow> bool" where
  "is_query (Call_Iteration algorithm) = False"
| "is_query Call_GetExploitability = True"
| "is_query Call_GetIterationCount = True"

section \<open>Well-formed and reachable solver states\<close>

text \<open>
  What the constructor establishes and every update keeps: a positive size, a payoff
  vector of \<open>size * size\<close> draws, two strategy accumulators and two regret accumulators
  of length \<open>size\<close>, and no negative entry in a strategy accumulator. The program
  constructs games of size 2 to 100000 only (the bounds \<^verbatim>\<open>main\<close> gives for the option
  \<^verbatim>\<open>s\<close>); size 1 is admitted here as well.
\<close>

definition game_ok :: "MatrixGame \<Rightarrow> bool" where
  "game_ok g \<longleftrightarrow>
     0 < size_m g \<and>
     length (payoffs g) = size_m g * size_m g \<and>
     list_all draw_ok (payoffs g) \<and>
     length (strategy g) = 2 \<and>
     length (cfr g) = 2 \<and>
     list_all (\<lambda>v. length v = size_m g \<and> list_all (\<lambda>x. 0 \<le> x) v) (strategy g) \<and>
     list_all (\<lambda>v. length v = size_m g) (cfr g)"

inductive reachable :: "MatrixGame \<Rightarrow> bool" where
  constructed:
    "0 < n \<Longrightarrow> length draws = n * n \<Longrightarrow> list_all draw_ok draws \<Longrightarrow>
     reachable (MatrixGame_new n draws)"
| iterated:
    "reachable g \<Longrightarrow> Iteration g algorithm = Some g' \<Longrightarrow> reachable g'"

code_pred reachable .

definition regrets_nonneg :: "MatrixGame \<Rightarrow> bool" where
  "regrets_nonneg g \<longleftrightarrow> list_all (list_all (\<lambda>x. 0 \<le> x)) (cfr g)"

section \<open>The specification's operations\<close>

text \<open>
  These definitions follow the words of the specification, not the code; the theorems
  below compare the code with them.
\<close>

text \<open>Regret matching: the weight of an action is the positive part of its regret; if the
  weights sum to zero the result is uniform, otherwise each weight is divided by the sum.\<close>

definition regret_matching :: "real list \<Rightarrow> real list" where
  "regret_matching rs =
     (let w = map (max 0) rs
      in if sum_list w = 0 then replicate (length rs) (1 / real (length rs))
         else map (\<lambda>x. x / sum_list w) w)"

text \<open>The average strategy: each entry of the accumulator divided by its total, and the
  uniform distribution when the total is zero.\<close>

definition average_strategy :: "real list \<Rightarrow> real list" where
  "average_strategy ss =
     (if sum_list ss = 0 then replicate (length ss) (1 / real (length ss))
      else map (\<lambda>x. x / sum_list ss) ss)"

text \<open>The expected payoff of action \<open>a\<close> of \<open>player\<close> against the opponent's distribution
  \<open>opp\<close>: \<open>\<Sum>b. opp[b] * payoff(player, a, b)\<close>.\<close>

definition expected_payoff :: "MatrixGame \<Rightarrow> nat \<Rightarrow> real list \<Rightarrow> nat \<Rightarrow> real" where
  "expected_payoff g player opp a = (\<Sum>b<size_m g. opp ! b * GetPayoff g player a b)"

text \<open>A probability distribution: no negative entry, and the entries sum to 1.\<close>

definition distribution :: "real list \<Rightarrow> bool" where
  "distribution xs \<longleftrightarrow> list_all (\<lambda>x. 0 \<le> x) xs \<and> sum_list xs = 1"

section \<open>Example states\<close>

text \<open>A game of size 2 as the constructor builds it, the same game inside its first
  iteration (counter incremented), and the state after player 0's CFR update there.\<close>

definition example_game :: MatrixGame where
  "example_game = MatrixGame_new 2 [1/2, 0, 0, 0]"

definition started_game :: MatrixGame where
  "started_game = example_game\<lparr>iterationCount := 1\<rparr>"

definition mid_state :: MatrixGame where
  "mid_state = \<lparr>size_m = 2, iterationCount = 1, payoffs = [1/2, 0, 0, 0],
       strategy = [[1/2, 1/2], [0, 0]], cfr = [[1/8, - 1/8], [0, 0]]\<rparr>"

section \<open>Binary64 arithmetic\<close>

text \<open>
  The second model of the class follows the arithmetic of the C++ \<^verbatim>\<open>double\<close>: every
  addition, subtraction, multiplication and division is the exact operation followed by
  rounding to the nearest binary64 number, ties to even (the IEEE 754 default, which the
  program never changes). A double is a real number of the form \<open>m * 2 ^ e\<close> with
  \<open>\<bar>m\<bar> < 2 ^ 53\<close> and \<open>e \<ge> -1074\<close>; \<open>ulp_exp x\<close> is the exponent \<open>e\<close> of the
  last place at the magnitude of \<open>x\<close> (\<open>-1074\<close> in the subnormal range). Overflow to
  infinity and NaN are not modelled: \<open>fl\<close> rounds as if the exponent had no upper bound.
  Negation, \<^verbatim>\<open>max\<close>, comparisons and the conversion of an \<^verbatim>\<open>int\<close> to \<^verbatim>\<open>double\<close> are exact.
  The functions of this model carry the source's names with the suffix \<open>_d\<close>; the
  functions above, without suffix, are the same code over exact real arithmetic.
\<close>

definition round_even :: "real \<Rightarrow> int" where
  "round_even y =
     (let f = \<lfloor>y\<rfloor>; d = y - of_int f
      in if d < 1/2 then f else if d > 1/2 then f + 1 else if even f then f else f + 1)"

definition ulp_exp :: "real \<Rightarrow> int" where
  "ulp_exp x = max (\<lfloor>log 2 \<bar>x\<bar>\<rfloor> - 52) (- 1074)"

definition fl :: "real \<Rightarrow> real" where
  "fl x = (if x = 0 then 0
           else of_int (round_even (x / 2 powi ulp_exp x)) * 2 powi ulp_exp x)"

definition is_double :: "real \<Rightarrow> bool" where
  "is_double x \<longleftrightarrow> fl x = x"

text \<open>\<open>\<lfloor>log 2 x\<rfloor>\<close> computed from bit lengths, for evaluation.\<close>

definition ilog2 :: "real \<Rightarrow> int" where
  "ilog2 x = (if 1 \<le> x then bitlen \<lfloor>x\<rfloor> - 1 else - bitlen (\<lceil>1 / x\<rceil> - 1))"

definition dadd :: "real \<Rightarrow> real \<Rightarrow> real" where
  "dadd x y = fl (x + y)"

definition dsub :: "real \<Rightarrow> real \<Rightarrow> real" where
  "dsub x y = fl (x - y)"

definition dmul :: "real \<Rightarrow> real \<Rightarrow> real" where
  "dmul x y = fl (x * y)"

definition ddiv :: "real \<Rightarrow> real \<Rightarrow> real" where
  "ddiv x y = fl (x / y)"

section \<open>The class in binary64 arithmetic\<close>

text \<open>\<^verbatim>\<open>GetPayoff\<close> and \<^verbatim>\<open>GetIterationCount\<close> do no rounding arithmetic and are shared with
  the exact model.\<close>

definition GetNormalizedStrategy_d :: "MatrixGame \<Rightarrow> nat \<Rightarrow> real list" where
  "GetNormalizedStrategy_d g player =
     (let sum = fold (\<lambda>i s. dadd s (strategy g ! player ! i)) [0..<size_m g] 0
      in if sum > 0
         then map (\<lambda>i. ddiv (strategy g ! player ! i) sum) [0..<size_m g]
         else map (\<lambda>i. ddiv 1 (real (size_m g))) [0..<size_m g])"

definition GetCurrentStrategy_d :: "MatrixGame \<Rightarrow> nat \<Rightarrow> real list" where
  "GetCurrentStrategy_d g player =
     (let sum = fold (\<lambda>i s. dadd s (max 0 (cfr g ! player ! i))) [0..<size_m g] 0
      in if sum > 0
         then map (\<lambda>i. if cfr g ! player ! i > 0 then ddiv (cfr g ! player ! i) sum else 0)
                [0..<size_m g]
         else map (\<lambda>i. ddiv 1 (real (size_m g))) [0..<size_m g])"

definition action_value_d :: "MatrixGame \<Rightarrow> nat \<Rightarrow> real list \<Rightarrow> nat \<Rightarrow> real" where
  "action_value_d g player ns a =
     fold (\<lambda>b s. dadd s (dmul (ns ! b) (GetPayoff g player a b))) [0..<size_m g] 0"

definition BestResponse_d :: "MatrixGame \<Rightarrow> nat \<Rightarrow> real" where
  "BestResponse_d g player =
     (let ns = GetNormalizedStrategy_d g (player XOR 1)
      in fold (\<lambda>a maxSum.
                 let sum = action_value_d g player ns a
                 in if sum > maxSum then sum else maxSum)
           [0..<size_m g] (- DBL_MAX))"

definition GetExploitability_d :: "MatrixGame \<Rightarrow> real" where
  "GetExploitability_d g = ddiv (dadd (BestResponse_d g 0) (BestResponse_d g 1)) 2"

definition FictitiousPlay_player_d :: "MatrixGame \<Rightarrow> nat \<Rightarrow> MatrixGame option" where
  "FictitiousPlay_player_d g player =
     (let ns = GetNormalizedStrategy_d g (player XOR 1);
          (maxSum, bestAction) =
            fold (\<lambda>a (maxSum, bestAction).
                    let sum = action_value_d g player ns a
                    in if sum > maxSum then (sum, int a) else (maxSum, bestAction))
              [0..<size_m g] (- DBL_MAX, - 1)
      in if 0 \<le> bestAction \<and> nat bestAction < length (strategy g ! player)
         then Some (g\<lparr>strategy := (strategy g)[player :=
                       (strategy g ! player)[nat bestAction :=
                          dadd (strategy g ! player ! nat bestAction) 1]]\<rparr>)
         else None)"

definition cfu_ev_d :: "MatrixGame \<Rightarrow> nat \<Rightarrow> real list \<Rightarrow> real list \<Rightarrow> real list \<times> real" where
  "cfu_ev_d g player sp so =
     fold (\<lambda>a (cfu, ev).
             let c = action_value_d g player so a
             in (cfu[a := c], dadd ev (dmul (sp ! a) c)))
       [0..<size_m g] (replicate (size_m g) 0, 0)"

definition CFR_player_d :: "MatrixGame \<Rightarrow> nat \<Rightarrow> MatrixGame" where
  "CFR_player_d g player =
     (let sp = GetCurrentStrategy_d g player;
          so = GetCurrentStrategy_d g (player XOR 1);
          (cfu, ev) = cfu_ev_d g player sp so;
          g1 = g\<lparr>cfr := (cfr g)[player :=
                  fold (\<lambda>a r. r[a := dadd (r ! a) (dsub (cfu ! a) ev)]) [0..<size_m g]
                    (cfr g ! player)]\<rparr>
      in g1\<lparr>strategy := (strategy g1)[player :=
              fold (\<lambda>a s. s[a := dadd (s ! a) (sp ! a)]) [0..<size_m g1]
                (strategy g1 ! player)]\<rparr>)"

definition CFRPlus_player_d :: "MatrixGame \<Rightarrow> nat \<Rightarrow> MatrixGame" where
  "CFRPlus_player_d g player =
     (let sp = GetCurrentStrategy_d g player;
          so = GetCurrentStrategy_d g (player XOR 1);
          (cfu, ev) = cfu_ev_d g player sp so;
          g1 = g\<lparr>cfr := (cfr g)[player :=
                  fold (\<lambda>a r. r[a := max 0 (dsub (dadd (r ! a) (cfu ! a)) ev)]) [0..<size_m g]
                    (cfr g ! player)]\<rparr>
      in g1\<lparr>strategy := (strategy g1)[player :=
              fold (\<lambda>a s. s[a := dadd (s ! a)
                                  (dmul (dmul (sp ! a) (real_of_int (iterationCount g1)))
                                        (real_of_int (iterationCount g1)))])
                [0..<size_m g1] (strategy g1 ! player)]\<rparr>)"

definition FictitiousPlay_d :: "MatrixGame \<Rightarrow> MatrixGame option" where
  "FictitiousPlay_d g =
     (case FictitiousPlay_player_d (g\<lparr>iterationCount := iterationCount g + 1\<rparr>) 0 of
        None \<Rightarrow> None
      | Some g1 \<Rightarrow> FictitiousPlay_player_d g1 1)"

definition CFR_d :: "MatrixGame \<Rightarrow> MatrixGame" where
  "CFR_d g = CFR_player_d (CFR_player_d (g\<lparr>iterationCount := iterationCount g + 1\<rparr>) 0) 1"

definition CFRPlus_d :: "MatrixGame \<Rightarrow> MatrixGame" where
  "CFRPlus_d g =
     CFRPlus_player_d (CFRPlus_player_d (g\<lparr>iterationCount := iterationCount g + 1\<rparr>) 0) 1"

definition Iteration_d :: "MatrixGame \<Rightarrow> int \<Rightarrow> MatrixGame option" where
  "Iteration_d g algorithm =
     (if algorithm = 0 then FictitiousPlay_d g
      else if algorithm = 1 then Some (CFR_d g)
      else Some (CFRPlus_d g))"

text \<open>
  Well-formed states of the binary64 model: a well-formed state whose size fits the C++
  \<^verbatim>\<open>int\<close> that holds it and whose stored numbers are doubles. Reachable states: from a
  constructed game whose draws are doubles, by \<^verbatim>\<open>Iteration\<close> with any selectors.
\<close>

definition game_ok_d :: "MatrixGame \<Rightarrow> bool" where
  "game_ok_d g \<longleftrightarrow>
     game_ok g \<and> size_m g < 2 ^ 31 \<and>
     list_all is_double (payoffs g) \<and>
     list_all (list_all is_double) (strategy g) \<and>
     list_all (list_all is_double) (cfr g)"

inductive reachable_d :: "MatrixGame \<Rightarrow> bool" where
  constructed_d:
    "0 < n \<Longrightarrow> n < 2 ^ 31 \<Longrightarrow> length draws = n * n \<Longrightarrow> list_all draw_ok draws \<Longrightarrow>
     list_all is_double draws \<Longrightarrow> reachable_d (MatrixGame_new n draws)"
| iterated_d:
    "reachable_d g \<Longrightarrow> Iteration_d g algorithm = Some g' \<Longrightarrow> reachable_d g'"

code_pred reachable_d .

text \<open>The sum of a list as the code accumulates it: from 0, rounding after each
  addition.\<close>

definition rounded_sum :: "real list \<Rightarrow> real" where
  "rounded_sum xs = fold (\<lambda>x s. dadd s x) xs 0"

text \<open>The specification's regret matching and average strategy with every operation
  rounded: the total is the rounded sum, each quotient is rounded, and the uniform value
  is the double nearest \<open>1 / n\<close>.\<close>

definition regret_matching_d :: "real list \<Rightarrow> real list" where
  "regret_matching_d rs =
     (let w = map (max 0) rs
      in if sum_list w = 0 then replicate (length rs) (ddiv 1 (real (length rs)))
         else map (\<lambda>x. ddiv x (rounded_sum w)) w)"

definition average_strategy_d :: "real list \<Rightarrow> real list" where
  "average_strategy_d ss =
     (if sum_list ss = 0 then replicate (length ss) (ddiv 1 (real (length ss)))
      else map (\<lambda>x. ddiv x (rounded_sum ss)) ss)"

section \<open>Example states of the binary64 model\<close>

text \<open>A game of size 3 in which two actions of player 0 have the same expected payoff
  against the uniform strategy, and the same game inside its first iteration; a game of
  size 2, and the states a run of Fictitious Play on it goes through (\<open>fp_state t s\<close>:
  counter \<open>t\<close>, strategy accumulators \<open>s\<close>, regrets zero).\<close>

definition tie_game :: MatrixGame where
  "tie_game = MatrixGame_new 3 [- 3/8, 1/8, 3/4, 3/8, - 5/8, 3/4, 1/2, - 1/2, 3/8]"

definition tie_started :: MatrixGame where
  "tie_started = tie_game\<lparr>iterationCount := 1\<rparr>"

definition fp_game :: MatrixGame where
  "fp_game = MatrixGame_new 2 [- 1, - 7/8, 0, - 7/8]"

definition fp_state :: "int \<Rightarrow> real list list \<Rightarrow> MatrixGame" where
  "fp_state t s = \<lparr>size_m = 2, iterationCount = t, payoffs = [- 1, - 7/8, 0, - 7/8],
       strategy = s, cfr = [[0, 0], [0, 0]]\<rparr>"

section \<open>Loops\<close>

lemma fold_add_sum:
  fixes f :: "nat \<Rightarrow> real"
  shows "fold (\<lambda>i s. s + f i) [0..<n] a = a + (\<Sum>i<n. f i)"
  by (induction n) simp_all

lemma fold_max:
  fixes f :: "nat \<Rightarrow> real"
  shows "fold (\<lambda>a m. let s = f a in if s > m then s else m) [0..<n] m0
         = Max (insert m0 (f ` {..<n}))"
proof (induction n)
  case 0
  show ?case by simp
next
  case (Suc n)
  define M where "M = Max (insert m0 (f ` {..<n}))"
  have "Max (insert m0 (f ` {..<Suc n})) = Max (insert (f n) (insert m0 (f ` {..<n})))"
    by (simp add: lessThan_Suc insert_commute)
  also have "\<dots> = max (f n) M"
    unfolding M_def by (rule Max_insert) simp_all
  finally have "Max (insert m0 (f ` {..<Suc n})) = max (f n) M" .
  moreover have "fold (\<lambda>a m. let s = f a in if s > m then s else m) [0..<Suc n] m0
      = (if f n > M then f n else M)"
    using Suc by (simp add: Let_def M_def)
  ultimately show ?case
    by (simp add: max_def not_less)
qed

lemma fold_max_pair:
  fixes f :: "nat \<Rightarrow> real"
  assumes "fold (\<lambda>a (m, k). let s = f a in if s > m then (s, int a) else (m, k))
             [0..<n] (m0, k0) = (m, k)"
  shows "(m = m0 \<and> k = k0 \<and> (\<forall>a<n. f a \<le> m0)) \<or>
         (m0 < m \<and> 0 \<le> k \<and> nat k < n \<and> m = f (nat k) \<and>
          (\<forall>a<n. f a \<le> m) \<and> (\<forall>a<nat k. f a < m))"
  using assms
proof (induction n arbitrary: m k)
  case 0
  then show ?case by simp
next
  case (Suc n)
  obtain m1 k1 where f1:
    "fold (\<lambda>a (m, k). let s = f a in if s > m then (s, int a) else (m, k))
       [0..<n] (m0, k0) = (m1, k1)"
    by (cases "fold (\<lambda>a (m, k). let s = f a in if s > m then (s, int a) else (m, k))
                 [0..<n] (m0, k0)") auto
  note IH = Suc.IH [OF f1]
  from Suc.prems f1 have step: "(if f n > m1 then (f n, int n) else (m1, k1)) = (m, k)"
    by (simp add: Let_def)
  show ?case
  proof (cases "f n > m1")
    case True
    with step have "m = f n" "k = int n" by auto
    with IH True show ?thesis
      by (auto simp: less_Suc_eq intro: less_imp_le order_le_less_trans)
  next
    case False
    with step have "m = m1" "k = k1" by auto
    with IH False show ?thesis
      by (auto simp: less_Suc_eq)
  qed
qed

lemma fold_update_take:
  "k \<le> length v \<Longrightarrow>
   fold (\<lambda>a r. r[a := h a (r ! a)]) [0..<k] v = map (\<lambda>a. h a (v ! a)) [0..<k] @ drop k v"
proof (induction k)
  case 0
  then show ?case by simp
next
  case (Suc k)
  then have "k < length v" by simp
  then have "drop k v = v ! k # drop (Suc k) v"
    by (simp add: Cons_nth_drop_Suc)
  with Suc show ?case
    by (simp add: list_update_append nth_append)
qed

lemma fold_update_map:
  "length v = n \<Longrightarrow>
   fold (\<lambda>a r. r[a := h a (r ! a)]) [0..<n] v = map (\<lambda>a. h a (v ! a)) [0..<n]"
  using fold_update_take [of n v h] by simp

lemma fold_cfu_ev_take:
  fixes f w :: "nat \<Rightarrow> real"
  shows "k \<le> length v \<Longrightarrow>
   fold (\<lambda>a (cfu, ev). let c = f a in (cfu[a := c], ev + w a * c)) [0..<k] (v, e0)
   = (map f [0..<k] @ drop k v, e0 + (\<Sum>a<k. w a * f a))"
proof (induction k)
  case 0
  then show ?case by simp
next
  case (Suc k)
  then have "k < length v" by simp
  then have "drop k v = v ! k # drop (Suc k) v"
    by (simp add: Cons_nth_drop_Suc)
  with Suc show ?case
    by (simp add: list_update_append Let_def)
qed

section \<open>Strategies\<close>

lemma DBL_MAX_gt_1: "1 < DBL_MAX"
  by (simp add: DBL_MAX_def)

lemma map_nth_fun: "map (\<lambda>i. h (v ! i)) [0..<length v] = map h v"
proof -
  have "map (\<lambda>i. h (v ! i)) [0..<length v] = map h (map ((!) v) [0..<length v])"
    by simp
  then show ?thesis by (simp only: map_nth)
qed

lemma sum_list_lessThan:
  fixes xs :: "real list"
  shows "sum_list xs = (\<Sum>i<length xs. xs ! i)"
  by (simp add: sum_list_sum_nth atLeast0LessThan)

lemma list_all_nth: "list_all P xs \<longleftrightarrow> (\<forall>i<length xs. P (xs ! i))"
  by (simp add: list_all_length)

lemma action_value_sum:
  "action_value g player ns a = expected_payoff g player ns a"
  by (simp add: action_value_def expected_payoff_def fold_add_sum)

lemma length_GetNormalizedStrategy [simp]:
  "length (GetNormalizedStrategy g p) = size_m g"
  by (simp add: GetNormalizedStrategy_def Let_def)

lemma length_GetCurrentStrategy [simp]:
  "length (GetCurrentStrategy g p) = size_m g"
  by (simp add: GetCurrentStrategy_def Let_def)

lemma GetNormalizedStrategy_nth:
  "i < size_m g \<Longrightarrow> GetNormalizedStrategy g p ! i =
     (if (\<Sum>i<size_m g. strategy g ! p ! i) > 0
      then strategy g ! p ! i / (\<Sum>i<size_m g. strategy g ! p ! i)
      else 1 / real (size_m g))"
  by (simp add: GetNormalizedStrategy_def Let_def fold_add_sum)

lemma GetCurrentStrategy_nth:
  "i < size_m g \<Longrightarrow> GetCurrentStrategy g p ! i =
     (if (\<Sum>i<size_m g. max 0 (cfr g ! p ! i)) > 0
      then max 0 (cfr g ! p ! i) / (\<Sum>i<size_m g. max 0 (cfr g ! p ! i))
      else 1 / real (size_m g))"
  by (simp add: GetCurrentStrategy_def Let_def fold_add_sum max_def)

lemma GetCurrentStrategy_nonneg:
  assumes "i < size_m g"
  shows "0 \<le> GetCurrentStrategy g p ! i"
proof -
  have "0 \<le> (\<Sum>i<size_m g. max 0 (cfr g ! p ! i))"
    by (rule sum_nonneg) simp
  then show ?thesis
    using assms by (simp add: GetCurrentStrategy_nth)
qed

lemma GetCurrentStrategy_sum:
  assumes "0 < size_m g"
  shows "(\<Sum>i<size_m g. GetCurrentStrategy g p ! i) = 1"
proof (cases "(\<Sum>i<size_m g. max 0 (cfr g ! p ! i)) > 0")
  case True
  then have "(\<Sum>i<size_m g. GetCurrentStrategy g p ! i)
      = (\<Sum>i<size_m g. max 0 (cfr g ! p ! i) / (\<Sum>i<size_m g. max 0 (cfr g ! p ! i)))"
    by (simp add: GetCurrentStrategy_nth)
  also have "\<dots> = 1"
    using True by (simp add: sum_divide_distrib [symmetric])
  finally show ?thesis .
next
  case False
  then have "(\<Sum>i<size_m g. GetCurrentStrategy g p ! i) = (\<Sum>i<size_m g. 1 / real (size_m g))"
    by (simp add: GetCurrentStrategy_nth)
  then show ?thesis using assms by simp
qed

lemma GetCurrentStrategy_distribution:
  "0 < size_m g \<Longrightarrow> distribution (GetCurrentStrategy g p)"
  using GetCurrentStrategy_sum [of g p]
  by (simp add: distribution_def list_all_nth GetCurrentStrategy_nonneg sum_list_lessThan)

lemma GetCurrentStrategy_regret_matching_eq:
  assumes len: "length (cfr g ! p) = size_m g"
  shows "GetCurrentStrategy g p = regret_matching (cfr g ! p)"
proof -
  let ?r = "cfr g ! p"
  have s: "sum_list (map (max 0) ?r) = (\<Sum>i<size_m g. max 0 (?r ! i))"
    using len by (simp add: sum_list_lessThan)
  have nonneg: "0 \<le> (\<Sum>i<size_m g. max 0 (?r ! i))"
    by (rule sum_nonneg) simp
  show ?thesis
  proof (cases "(\<Sum>i<size_m g. max 0 (?r ! i)) > 0")
    case True
    have "map (\<lambda>i. if ?r ! i > 0 then ?r ! i / (\<Sum>i<size_m g. max 0 (?r ! i)) else 0) [0..<size_m g]
        = map (\<lambda>i. (\<lambda>x. max 0 x / (\<Sum>i<size_m g. max 0 (?r ! i))) (?r ! i)) [0..<length ?r]"
      using len by (simp add: max_def)
    also have "\<dots> = map (\<lambda>x. max 0 x / (\<Sum>i<size_m g. max 0 (?r ! i))) ?r"
      by (rule map_nth_fun)
    finally show ?thesis
      using True by (simp add: GetCurrentStrategy_def regret_matching_def Let_def fold_add_sum s comp_def)
  next
    case False
    with nonneg have z: "(\<Sum>i<size_m g. max 0 (?r ! i)) = 0" by simp
    show ?thesis
      using len by (simp add: GetCurrentStrategy_def regret_matching_def Let_def fold_add_sum s z map_replicate_const)
  qed
qed

lemma mid_state_eq: "CFR_player started_game 0 = mid_state"
  by code_simp

text \<open>
  Claim C4. \<^verbatim>\<open>GetCurrentStrategy\<close> is regret matching on the player's regret accumulator:
  the weights are the positive parts of the regrets, the result is uniform when they sum
  to zero, and otherwise each weight divided by the sum; an action whose regret is not
  positive then has probability exactly 0. In every case the entries are non-negative and
  sum to 1.
\<close>

theorem GetCurrentStrategy_is_regret_matching:
  assumes "0 < size_m g" and "length (cfr g ! p) = size_m g"
  shows "GetCurrentStrategy g p = regret_matching (cfr g ! p)
       \<and> (\<forall>a<size_m g. cfr g ! p ! a \<le> 0 \<and> sum_list (map (max 0) (cfr g ! p)) \<noteq> 0
             \<longrightarrow> GetCurrentStrategy g p ! a = 0)
       \<and> distribution (GetCurrentStrategy g p)"
proof -
  have "GetCurrentStrategy g p ! a = 0"
    if "a < size_m g" "cfr g ! p ! a \<le> 0" "sum_list (map (max 0) (cfr g ! p)) \<noteq> 0" for a
  proof -
    have "sum_list (map (max 0) (cfr g ! p)) = (\<Sum>i<size_m g. max 0 (cfr g ! p ! i))"
      using assms(2) by (simp add: sum_list_lessThan)
    moreover have "0 \<le> (\<Sum>i<size_m g. max 0 (cfr g ! p ! i))"
      by (rule sum_nonneg) simp
    ultimately have "0 < (\<Sum>i<size_m g. max 0 (cfr g ! p ! i))"
      using that(3) by simp
    then show ?thesis
      using that(1,2) by (simp add: GetCurrentStrategy_nth)
  qed
  then have "\<forall>a<size_m g. cfr g ! p ! a \<le> 0 \<and> sum_list (map (max 0) (cfr g ! p)) \<noteq> 0
             \<longrightarrow> GetCurrentStrategy g p ! a = 0"
    by blast
  moreover have "GetCurrentStrategy g p = regret_matching (cfr g ! p)"
    using assms(2) by (rule GetCurrentStrategy_regret_matching_eq)
  moreover have "distribution (GetCurrentStrategy g p)"
    using assms(1) by (rule GetCurrentStrategy_distribution)
  ultimately show ?thesis by blast
qed

theorem GetCurrentStrategy_is_regret_matching_witness:
  "0 < size_m mid_state \<and> length (cfr mid_state ! 0) = size_m mid_state
   \<and> GetCurrentStrategy mid_state 0 = [1, 0]
   \<and> cfr mid_state ! 0 ! 1 \<le> 0 \<and> sum_list (map (max 0) (cfr mid_state ! 0)) \<noteq> 0
   \<and> GetCurrentStrategy mid_state 0 ! 1 = 0
   \<and> distribution (GetCurrentStrategy mid_state 0)"
proof -
  have h: "0 < size_m mid_state" "length (cfr mid_state ! 0) = size_m mid_state"
    by (simp_all add: mid_state_def)
  have h1: "(1::nat) < size_m mid_state" "cfr mid_state ! 0 ! 1 \<le> 0"
    "sum_list (map (max 0) (cfr mid_state ! 0)) \<noteq> 0"
    by (simp_all add: mid_state_def)
  note inst = GetCurrentStrategy_is_regret_matching [OF h]
  from inst have "GetCurrentStrategy mid_state 0 = regret_matching (cfr mid_state ! 0)"
    by blast
  also have "regret_matching (cfr mid_state ! 0) = [1, 0]"
    by (simp add: mid_state_def regret_matching_def)
  finally have "GetCurrentStrategy mid_state 0 = [1, 0]" .
  with inst h h1 show ?thesis
    by blast
qed

text \<open>
  Claim C7. Zero-sum consistency: for actions \<open>a\<close>, \<open>b\<close> within the game size, the payoff of
  player 0 for \<open>(a, b)\<close> is the negated payoff of player 1 for \<open>(b, a)\<close>.
\<close>

theorem GetPayoff_zero_sum:
  "a < size_m g \<Longrightarrow> b < size_m g \<Longrightarrow> GetPayoff g 0 a b = - GetPayoff g 1 b a"
  by (simp add: GetPayoff_def)

theorem GetPayoff_zero_sum_witness:
  "GetPayoff (MatrixGame_new 2 [1/2, 1/4, 0, 0]) 0 0 1 = 1/4 \<and>
   GetPayoff (MatrixGame_new 2 [1/2, 1/4, 0, 0]) 1 1 0 = - 1/4"
  using GetPayoff_zero_sum [of 0 "MatrixGame_new 2 [1/2, 1/4, 0, 0]" 1]
  by (simp add: GetPayoff_def MatrixGame_new_def)

section \<open>Payoffs and average strategies of a well-formed state\<close>

lemma game_ok_iff:
  "game_ok g \<longleftrightarrow>
     0 < size_m g \<and> length (payoffs g) = size_m g * size_m g \<and>
     (\<forall>i<size_m g * size_m g. draw_ok (payoffs g ! i)) \<and>
     length (strategy g) = 2 \<and> length (cfr g) = 2 \<and>
     (\<forall>p<2. length (strategy g ! p) = size_m g \<and> (\<forall>a<size_m g. 0 \<le> strategy g ! p ! a)) \<and>
     (\<forall>p<2. length (cfr g ! p) = size_m g)"
  by (auto simp: game_ok_def list_all_nth)

lemma payoff_index: "a < n \<Longrightarrow> b < n \<Longrightarrow> a * n + b < n * (n::nat)"
proof -
  assume "a < n" "b < n"
  then have "a * n + b < a * n + n" by simp
  also have "\<dots> = Suc a * n" by simp
  also have "\<dots> \<le> n * n" using \<open>a < n\<close> by (metis Suc_leI mult.commute mult_le_mono2)
  finally show ?thesis .
qed

lemma GetPayoff_bounds:
  assumes "game_ok g" "a < size_m g" "b < size_m g"
  shows "- 1 \<le> GetPayoff g p a b"
proof -
  have "draw_ok (payoffs g ! (a * size_m g + b))" "draw_ok (payoffs g ! (b * size_m g + a))"
    using assms by (simp_all add: game_ok_iff payoff_index)
  then show ?thesis
    by (simp add: GetPayoff_def draw_ok_def)
qed

lemma expected_payoff_lower:
  assumes ok: "game_ok g" and a: "a < size_m g"
    and nonneg: "\<And>b. b < size_m g \<Longrightarrow> 0 \<le> ns ! b"
    and one: "(\<Sum>b<size_m g. ns ! b) = 1"
  shows "- 1 \<le> expected_payoff g p ns a"
proof -
  have "(\<Sum>b<size_m g. ns ! b * (- 1)) \<le> (\<Sum>b<size_m g. ns ! b * GetPayoff g p a b)"
  proof (rule sum_mono)
    fix b assume "b \<in> {..<size_m g}"
    then have "b < size_m g" by simp
    then show "ns ! b * (- 1) \<le> ns ! b * GetPayoff g p a b"
      by (intro mult_left_mono nonneg GetPayoff_bounds [OF ok a])
  qed
  moreover have "(\<Sum>b<size_m g. ns ! b * (- 1)) = - 1"
    using one by (simp add: sum_negf)
  ultimately show ?thesis
    by (simp add: expected_payoff_def)
qed

lemma strategy_sum_nonneg:
  assumes "game_ok g" "p < 2"
  shows "0 \<le> (\<Sum>i<size_m g. strategy g ! p ! i)"
  using assms by (intro sum_nonneg) (simp add: game_ok_iff)

lemma GetNormalizedStrategy_nonneg:
  assumes "game_ok g" "p < 2" "i < size_m g"
  shows "0 \<le> GetNormalizedStrategy g p ! i"
  using assms strategy_sum_nonneg [OF assms(1,2)]
  by (simp add: GetNormalizedStrategy_nth game_ok_iff)

lemma GetNormalizedStrategy_sum:
  assumes "0 < size_m g"
  shows "(\<Sum>i<size_m g. GetNormalizedStrategy g p ! i) = 1"
proof (cases "(\<Sum>i<size_m g. strategy g ! p ! i) > 0")
  case True
  then have "(\<Sum>i<size_m g. GetNormalizedStrategy g p ! i)
      = (\<Sum>i<size_m g. strategy g ! p ! i / (\<Sum>i<size_m g. strategy g ! p ! i))"
    by (simp add: GetNormalizedStrategy_nth)
  also have "\<dots> = 1"
    using True by (simp add: sum_divide_distrib [symmetric])
  finally show ?thesis .
next
  case False
  then have "(\<Sum>i<size_m g. GetNormalizedStrategy g p ! i) = (\<Sum>i<size_m g. 1 / real (size_m g))"
    by (simp add: GetNormalizedStrategy_nth)
  then show ?thesis using assms by simp
qed

lemma GetNormalizedStrategy_distribution:
  "game_ok g \<Longrightarrow> p < 2 \<Longrightarrow> distribution (GetNormalizedStrategy g p)"
  using GetNormalizedStrategy_sum [of g p]
  by (simp add: distribution_def list_all_nth GetNormalizedStrategy_nonneg sum_list_lessThan game_ok_iff)

lemma GetNormalizedStrategy_average_eq:
  assumes ok: "game_ok g" and p: "p < 2"
  shows "GetNormalizedStrategy g p = average_strategy (strategy g ! p)"
proof -
  let ?s = "strategy g ! p"
  have len: "length ?s = size_m g"
    using ok p by (simp add: game_ok_iff)
  have s: "sum_list ?s = (\<Sum>i<size_m g. ?s ! i)"
    using len by (simp add: sum_list_lessThan)
  show ?thesis
  proof (cases "(\<Sum>i<size_m g. ?s ! i) > 0")
    case True
    have "map (\<lambda>i. ?s ! i / (\<Sum>i<size_m g. ?s ! i)) [0..<size_m g]
        = map (\<lambda>i. (\<lambda>x. x / (\<Sum>i<size_m g. ?s ! i)) (?s ! i)) [0..<length ?s]"
      using len by simp
    also have "\<dots> = map (\<lambda>x. x / (\<Sum>i<size_m g. ?s ! i)) ?s"
      by (rule map_nth_fun)
    finally show ?thesis
      using True by (simp add: GetNormalizedStrategy_def average_strategy_def Let_def fold_add_sum s)
  next
    case False
    with strategy_sum_nonneg [OF ok p] have z: "(\<Sum>i<size_m g. ?s ! i) = 0" by simp
    show ?thesis
      using len by (simp add: GetNormalizedStrategy_def average_strategy_def Let_def fold_add_sum s z map_replicate_const)
  qed
qed

section \<open>The CFR and CFR+ updates, field by field\<close>

lemma cfu_ev_eq:
  "cfu_ev g p sp so =
     (map (expected_payoff g p so) [0..<size_m g],
      (\<Sum>a<size_m g. sp ! a * expected_payoff g p so a))"
  using fold_cfu_ev_take [of "size_m g" "replicate (size_m g) 0" "action_value g p so" "\<lambda>a. sp ! a" 0]
  by (simp add: cfu_ev_def action_value_sum [abs_def])

lemma GetCurrentStrategy_cong:
  "size_m g' = size_m g \<Longrightarrow> cfr g' ! p = cfr g ! p \<Longrightarrow>
   GetCurrentStrategy g' p = GetCurrentStrategy g p"
  by (simp add: GetCurrentStrategy_def Let_def)

lemma CFR_player_fields [simp]:
  "size_m (CFR_player g p) = size_m g"
  "iterationCount (CFR_player g p) = iterationCount g"
  "payoffs (CFR_player g p) = payoffs g"
  by (simp_all add: CFR_player_def Let_def split: prod.split)

lemma CFRPlus_player_fields [simp]:
  "size_m (CFRPlus_player g p) = size_m g"
  "iterationCount (CFRPlus_player g p) = iterationCount g"
  "payoffs (CFRPlus_player g p) = payoffs g"
  by (simp_all add: CFRPlus_player_def Let_def split: prod.split)

lemma CFR_player_strategy:
  "strategy (CFR_player g p) = (strategy g)[p :=
     fold (\<lambda>a s. s[a := s ! a + GetCurrentStrategy g p ! a]) [0..<size_m g] (strategy g ! p)]"
  by (simp add: CFR_player_def Let_def split: prod.split)

lemma CFRPlus_player_strategy:
  "strategy (CFRPlus_player g p) = (strategy g)[p :=
     fold (\<lambda>a s. s[a := s ! a + GetCurrentStrategy g p ! a * real_of_int (iterationCount g)
                                  * real_of_int (iterationCount g)])
       [0..<size_m g] (strategy g ! p)]"
  by (simp add: CFRPlus_player_def Let_def split: prod.split)

lemma CFR_player_cfr:
  "cfr (CFR_player g p) = (cfr g)[p :=
     fold (\<lambda>a r. r[a := r ! a +
              (map (expected_payoff g p (GetCurrentStrategy g (p XOR 1))) [0..<size_m g] ! a
               - (\<Sum>a<size_m g. GetCurrentStrategy g p ! a
                     * expected_payoff g p (GetCurrentStrategy g (p XOR 1)) a))])
       [0..<size_m g] (cfr g ! p)]"
  by (simp add: CFR_player_def Let_def cfu_ev_eq)

lemma CFRPlus_player_cfr:
  "cfr (CFRPlus_player g p) = (cfr g)[p :=
     fold (\<lambda>a r. r[a := max 0 (r ! a +
              map (expected_payoff g p (GetCurrentStrategy g (p XOR 1))) [0..<size_m g] ! a
               - (\<Sum>a<size_m g. GetCurrentStrategy g p ! a
                     * expected_payoff g p (GetCurrentStrategy g (p XOR 1)) a))])
       [0..<size_m g] (cfr g ! p)]"
  by (simp add: CFRPlus_player_def Let_def cfu_ev_eq)

lemma length_fold_update [simp]:
  "length (fold (\<lambda>a r. r[a := h a r]) xs v) = length v"
  by (induction xs arbitrary: v) simp_all

section \<open>Every update keeps a state well-formed\<close>

lemma xor_one_less: "p < 2 \<Longrightarrow> p XOR (1::nat) < 2"
  by (cases p) (auto simp: less_Suc_eq numeral_2_eq_2)

lemma game_ok_MatrixGame_new:
  assumes "0 < n" "length draws = n * n" "list_all draw_ok draws"
  shows "game_ok (MatrixGame_new n draws)"
  using assms by (simp add: game_ok_def MatrixGame_new_def list_all_iff)

lemma game_ok_iterationCount:
  "game_ok (g\<lparr>iterationCount := t\<rparr>) = game_ok g"
  by (simp add: game_ok_def)

lemma CFR_player_strategy_nth:
  assumes "game_ok g" "p < 2" "q < 2" "a < size_m g"
  shows "strategy (CFR_player g p) ! q ! a =
           strategy g ! q ! a + (if q = p then GetCurrentStrategy g p ! a else 0)"
proof -
  have "length (strategy g ! p) = size_m g"
    using assms by (simp add: game_ok_iff)
  from fold_update_map [OF this, of "\<lambda>a x. x + GetCurrentStrategy g p ! a"]
  show ?thesis
    using assms by (simp add: CFR_player_strategy game_ok_iff nth_list_update)
qed

lemma CFRPlus_player_strategy_nth:
  assumes "game_ok g" "p < 2" "q < 2" "a < size_m g"
  shows "strategy (CFRPlus_player g p) ! q ! a =
           strategy g ! q ! a +
           (if q = p then GetCurrentStrategy g p ! a * real_of_int (iterationCount g)
                            * real_of_int (iterationCount g) else 0)"
proof -
  have "length (strategy g ! p) = size_m g"
    using assms by (simp add: game_ok_iff)
  from fold_update_map [OF this, of "\<lambda>a x. x + GetCurrentStrategy g p ! a
      * real_of_int (iterationCount g) * real_of_int (iterationCount g)"]
  show ?thesis
    using assms by (simp add: CFRPlus_player_strategy game_ok_iff nth_list_update)
qed

lemma CFRPlus_weight_nonneg:
  assumes "a < size_m g"
  shows "0 \<le> GetCurrentStrategy g p ! a * real_of_int t * real_of_int t"
proof -
  have "0 \<le> GetCurrentStrategy g p ! a * (real_of_int t * real_of_int t)"
    using assms by (intro mult_nonneg_nonneg GetCurrentStrategy_nonneg zero_le_square)
  then show ?thesis by (simp add: mult.assoc)
qed

lemma game_ok_CFR_player:
  assumes ok: "game_ok g" and p: "p < 2"
  shows "game_ok (CFR_player g p)"
proof -
  have "0 \<le> strategy (CFR_player g p) ! q ! a" if "q < 2" "a < size_m g" for q a
    using ok p that GetCurrentStrategy_nonneg [of a g p]
    by (simp add: CFR_player_strategy_nth game_ok_iff)
  moreover have "length (strategy (CFR_player g p) ! q) = size_m g" if "q < 2" for q
    using ok that by (cases "q = p") (simp_all add: CFR_player_strategy game_ok_iff)
  moreover have "length (cfr (CFR_player g p) ! q) = size_m g" if "q < 2" for q
    using ok that by (cases "q = p") (simp_all add: CFR_player_cfr game_ok_iff)
  moreover have "length (strategy (CFR_player g p)) = 2" "length (cfr (CFR_player g p)) = 2"
    using ok by (simp_all add: CFR_player_strategy CFR_player_cfr game_ok_iff)
  ultimately show ?thesis
    using ok by (simp add: game_ok_iff)
qed

lemma game_ok_CFRPlus_player:
  assumes ok: "game_ok g" and p: "p < 2"
  shows "game_ok (CFRPlus_player g p)"
proof -
  have "0 \<le> strategy (CFRPlus_player g p) ! q ! a" if "q < 2" "a < size_m g" for q a
    using ok p that CFRPlus_weight_nonneg [of a g p "iterationCount g"]
    by (simp add: CFRPlus_player_strategy_nth game_ok_iff)
  moreover have "length (strategy (CFRPlus_player g p) ! q) = size_m g" if "q < 2" for q
    using ok that by (cases "q = p") (simp_all add: CFRPlus_player_strategy game_ok_iff)
  moreover have "length (cfr (CFRPlus_player g p) ! q) = size_m g" if "q < 2" for q
    using ok that by (cases "q = p") (simp_all add: CFRPlus_player_cfr game_ok_iff)
  moreover have "length (strategy (CFRPlus_player g p)) = 2" "length (cfr (CFRPlus_player g p)) = 2"
    using ok by (simp_all add: CFRPlus_player_strategy CFRPlus_player_cfr game_ok_iff)
  ultimately show ?thesis
    using ok by (simp add: game_ok_iff)
qed

text \<open>The loop of \<^verbatim>\<open>FictitiousPlay(int)\<close> on a well-formed state: it ends with an action
  in range, the first one of maximal expected payoff.\<close>

lemma FictitiousPlay_loop:
  assumes ok: "game_ok g" and p: "p < 2"
  obtains k where
    "k < size_m g"
    "fold (\<lambda>a (maxSum, bestAction).
             let sum = action_value g p (GetNormalizedStrategy g (p XOR 1)) a
             in if sum > maxSum then (sum, int a) else (maxSum, bestAction))
       [0..<size_m g] (- DBL_MAX, - 1)
     = (action_value g p (GetNormalizedStrategy g (p XOR 1)) k, int k)"
    "\<forall>a<size_m g. expected_payoff g p (GetNormalizedStrategy g (p XOR 1)) a
        \<le> expected_payoff g p (GetNormalizedStrategy g (p XOR 1)) k"
    "\<forall>a<k. expected_payoff g p (GetNormalizedStrategy g (p XOR 1)) a
        < expected_payoff g p (GetNormalizedStrategy g (p XOR 1)) k"
proof -
  let ?f = "action_value g p (GetNormalizedStrategy g (p XOR 1))"
  have q: "p XOR 1 < 2"
    using p by (rule xor_one_less)
  have n: "0 < size_m g"
    using ok by (simp add: game_ok_iff)
  have low: "- 1 \<le> ?f a" if "a < size_m g" for a
    unfolding action_value_sum using ok that
    by (intro expected_payoff_lower GetNormalizedStrategy_nonneg GetNormalizedStrategy_sum q n)
  obtain m k where fold:
    "fold (\<lambda>a (maxSum, bestAction).
             let sum = ?f a
             in if sum > maxSum then (sum, int a) else (maxSum, bestAction))
       [0..<size_m g] (- DBL_MAX, - 1) = (m, k)"
    by (cases "fold (\<lambda>a (maxSum, bestAction).
             let sum = ?f a
             in if sum > maxSum then (sum, int a) else (maxSum, bestAction))
       [0..<size_m g] (- DBL_MAX, - 1)") blast
  from fold_max_pair [OF fold]
  have "(\<forall>a<size_m g. ?f a \<le> - DBL_MAX) \<or>
        (0 \<le> k \<and> nat k < size_m g \<and> m = ?f (nat k) \<and>
          (\<forall>a<size_m g. ?f a \<le> m) \<and> (\<forall>a<nat k. ?f a < m))"
    by blast
  moreover have "\<not> (\<forall>a<size_m g. ?f a \<le> - DBL_MAX)"
  proof
    assume "\<forall>a<size_m g. ?f a \<le> - DBL_MAX"
    with n have "?f 0 \<le> - DBL_MAX" by blast
    with low [OF n] DBL_MAX_gt_1 show False by simp
  qed
  ultimately have k: "0 \<le> k" "nat k < size_m g" "m = ?f (nat k)"
    "\<forall>a<size_m g. ?f a \<le> ?f (nat k)" "\<forall>a<nat k. ?f a < ?f (nat k)"
    by blast+
  from k(1) have ik: "int (nat k) = k" by simp
  show thesis
  proof (rule that [of "nat k"])
    show "nat k < size_m g" by (rule k)
    show "fold (\<lambda>a (maxSum, bestAction).
             let sum = ?f a
             in if sum > maxSum then (sum, int a) else (maxSum, bestAction))
       [0..<size_m g] (- DBL_MAX, - 1) = (?f (nat k), int (nat k))"
      unfolding ik fold k(3) ..
    show "\<forall>a<size_m g. expected_payoff g p (GetNormalizedStrategy g (p XOR 1)) a
        \<le> expected_payoff g p (GetNormalizedStrategy g (p XOR 1)) (nat k)"
      using k(4) unfolding action_value_sum .
    show "\<forall>a<nat k. expected_payoff g p (GetNormalizedStrategy g (p XOR 1)) a
        < expected_payoff g p (GetNormalizedStrategy g (p XOR 1)) (nat k)"
      using k(5) unfolding action_value_sum .
  qed
qed

lemma FictitiousPlay_player_result:
  assumes ok: "game_ok g" and p: "p < 2"
  obtains k where
    "k < size_m g"
    "FictitiousPlay_player g p =
       Some (g\<lparr>strategy := (strategy g)[p := (strategy g ! p)[k := strategy g ! p ! k + 1]]\<rparr>)"
    "\<forall>a<size_m g. expected_payoff g p (GetNormalizedStrategy g (p XOR 1)) a
        \<le> expected_payoff g p (GetNormalizedStrategy g (p XOR 1)) k"
    "\<forall>a<k. expected_payoff g p (GetNormalizedStrategy g (p XOR 1)) a
        < expected_payoff g p (GetNormalizedStrategy g (p XOR 1)) k"
proof -
  have len: "length (strategy g ! p) = size_m g"
    using ok p by (simp add: game_ok_iff)
  from FictitiousPlay_loop [OF ok p] obtain k where k:
    "k < size_m g"
    "fold (\<lambda>a (maxSum, bestAction).
             let sum = action_value g p (GetNormalizedStrategy g (p XOR 1)) a
             in if sum > maxSum then (sum, int a) else (maxSum, bestAction))
       [0..<size_m g] (- DBL_MAX, - 1)
     = (action_value g p (GetNormalizedStrategy g (p XOR 1)) k, int k)"
    "\<forall>a<size_m g. expected_payoff g p (GetNormalizedStrategy g (p XOR 1)) a
        \<le> expected_payoff g p (GetNormalizedStrategy g (p XOR 1)) k"
    "\<forall>a<k. expected_payoff g p (GetNormalizedStrategy g (p XOR 1)) a
        < expected_payoff g p (GetNormalizedStrategy g (p XOR 1)) k"
    by blast
  have "FictitiousPlay_player g p =
      (case (action_value g p (GetNormalizedStrategy g (p XOR 1)) k, int k) of
         (maxSum, bestAction) \<Rightarrow>
           if 0 \<le> bestAction \<and> nat bestAction < length (strategy g ! p)
           then Some (g\<lparr>strategy := (strategy g)[p :=
                       (strategy g ! p)[nat bestAction :=
                          strategy g ! p ! nat bestAction + 1]]\<rparr>)
           else None)"
    unfolding FictitiousPlay_player_def Let_def k(2) [unfolded Let_def] ..
  also have "\<dots> =
       Some (g\<lparr>strategy := (strategy g)[p := (strategy g ! p)[k := strategy g ! p ! k + 1]]\<rparr>)"
    using k(1) len by simp
  finally have res: "FictitiousPlay_player g p =
       Some (g\<lparr>strategy := (strategy g)[p := (strategy g ! p)[k := strategy g ! p ! k + 1]]\<rparr>)" .
  show thesis
    by (rule that [of k]) (use k res in blast)+
qed

lemma game_ok_FictitiousPlay_player:
  assumes ok: "game_ok g" and p: "p < 2"
  shows "\<exists>g'. FictitiousPlay_player g p = Some g' \<and> game_ok g' \<and>
    size_m g' = size_m g \<and> cfr g' = cfr g \<and> iterationCount g' = iterationCount g \<and>
    (\<forall>q<2. \<forall>a<size_m g. strategy g ! q ! a \<le> strategy g' ! q ! a)"
proof -
  from FictitiousPlay_player_result [OF ok p] obtain k where k: "k < size_m g"
    "FictitiousPlay_player g p =
       Some (g\<lparr>strategy := (strategy g)[p := (strategy g ! p)[k := strategy g ! p ! k + 1]]\<rparr>)"
    by blast
  let ?g' = "g\<lparr>strategy := (strategy g)[p := (strategy g ! p)[k := strategy g ! p ! k + 1]]\<rparr>"
  have nth: "strategy ?g' ! q ! a = strategy g ! q ! a + (if q = p \<and> a = k then 1 else 0)"
    if "q < 2" "a < size_m g" for q a
    using ok p that by (simp add: game_ok_iff nth_list_update)
  have "0 \<le> strategy ?g' ! q ! a" if "q < 2" "a < size_m g" for q a
    using nth [OF that] ok that by (simp add: game_ok_iff del: nth_list_update_eq)
  moreover have "length (strategy ?g' ! q) = size_m g" if "q < 2" for q
    using ok that by (cases "q = p") (simp_all add: game_ok_iff)
  ultimately have "game_ok ?g'"
    using ok by (simp add: game_ok_iff)
  moreover have "\<forall>q<2. \<forall>a<size_m g. strategy g ! q ! a \<le> strategy ?g' ! q ! a"
    using nth by simp
  ultimately show ?thesis
    using k(2) by (intro exI [of _ ?g']) simp
qed

section \<open>Whole iterations\<close>

lemma game_ok_CFR: "game_ok g \<Longrightarrow> game_ok (CFR g)"
  by (simp add: CFR_def game_ok_CFR_player game_ok_iterationCount)

lemma game_ok_CFRPlus: "game_ok g \<Longrightarrow> game_ok (CFRPlus g)"
  by (simp add: CFRPlus_def game_ok_CFRPlus_player game_ok_iterationCount)

lemma strategy_mono_CFR_player:
  assumes "game_ok g" "p < 2" "q < 2" "a < size_m g"
  shows "strategy g ! q ! a \<le> strategy (CFR_player g p) ! q ! a"
  using assms GetCurrentStrategy_nonneg [of a g p]
  by (simp add: CFR_player_strategy_nth)

lemma strategy_mono_CFRPlus_player:
  assumes "game_ok g" "p < 2" "q < 2" "a < size_m g"
  shows "strategy g ! q ! a \<le> strategy (CFRPlus_player g p) ! q ! a"
  using assms CFRPlus_weight_nonneg [of a g p "iterationCount g"]
  by (simp add: CFRPlus_player_strategy_nth)

lemma strategy_mono_CFR:
  assumes ok: "game_ok g" and q: "q < 2" and a: "a < size_m g"
  shows "strategy g ! q ! a \<le> strategy (CFR g) ! q ! a"
proof -
  let ?g0 = "g\<lparr>iterationCount := iterationCount g + 1\<rparr>"
  have ok0: "game_ok ?g0" using ok by (simp add: game_ok_iterationCount)
  have ok1: "game_ok (CFR_player ?g0 0)" using ok0 by (simp add: game_ok_CFR_player)
  have "strategy g ! q ! a \<le> strategy (CFR_player ?g0 0) ! q ! a"
    using strategy_mono_CFR_player [OF ok0 _ q, of 0 a] a by simp
  also have "\<dots> \<le> strategy (CFR_player (CFR_player ?g0 0) 1) ! q ! a"
    using strategy_mono_CFR_player [OF ok1 _ q, of 1 a] a by simp
  finally show ?thesis by (simp add: CFR_def)
qed

lemma strategy_mono_CFRPlus:
  assumes ok: "game_ok g" and q: "q < 2" and a: "a < size_m g"
  shows "strategy g ! q ! a \<le> strategy (CFRPlus g) ! q ! a"
proof -
  let ?g0 = "g\<lparr>iterationCount := iterationCount g + 1\<rparr>"
  have ok0: "game_ok ?g0" using ok by (simp add: game_ok_iterationCount)
  have ok1: "game_ok (CFRPlus_player ?g0 0)" using ok0 by (simp add: game_ok_CFRPlus_player)
  have "strategy g ! q ! a \<le> strategy (CFRPlus_player ?g0 0) ! q ! a"
    using strategy_mono_CFRPlus_player [OF ok0 _ q, of 0 a] a by simp
  also have "\<dots> \<le> strategy (CFRPlus_player (CFRPlus_player ?g0 0) 1) ! q ! a"
    using strategy_mono_CFRPlus_player [OF ok1 _ q, of 1 a] a by simp
  finally show ?thesis by (simp add: CFRPlus_def)
qed

lemma size_m_CFR [simp]: "size_m (CFR g) = size_m g"
  by (simp add: CFR_def)

lemma size_m_CFRPlus [simp]: "size_m (CFRPlus g) = size_m g"
  by (simp add: CFRPlus_def)

lemma FictitiousPlay_result:
  assumes ok: "game_ok g"
  shows "\<exists>g'. FictitiousPlay g = Some g' \<and> game_ok g' \<and> size_m g' = size_m g \<and>
    (\<forall>q<2. \<forall>a<size_m g. strategy g ! q ! a \<le> strategy g' ! q ! a)"
proof -
  let ?g0 = "g\<lparr>iterationCount := iterationCount g + 1\<rparr>"
  have ok0: "game_ok ?g0" using ok by (simp add: game_ok_iterationCount)
  from game_ok_FictitiousPlay_player [OF ok0, of 0] obtain g1 where g1:
    "FictitiousPlay_player ?g0 0 = Some g1" "game_ok g1" "size_m g1 = size_m g"
    "\<forall>q<2. \<forall>a<size_m g. strategy g ! q ! a \<le> strategy g1 ! q ! a"
    by auto
  from game_ok_FictitiousPlay_player [OF g1(2), of 1] obtain g2 where g2:
    "FictitiousPlay_player g1 1 = Some g2" "game_ok g2" "size_m g2 = size_m g1"
    "\<forall>q<2. \<forall>a<size_m g1. strategy g1 ! q ! a \<le> strategy g2 ! q ! a"
    by auto
  have "\<forall>q<2. \<forall>a<size_m g. strategy g ! q ! a \<le> strategy g2 ! q ! a"
    using g1(3,4) g2(4) by (metis order_trans)
  then show ?thesis
    using g1 g2 by (intro exI [of _ g2]) (simp add: FictitiousPlay_def)
qed

lemma Iteration_total:
  assumes "game_ok g"
  shows "\<exists>g'. Iteration g algorithm = Some g' \<and> game_ok g' \<and> size_m g' = size_m g \<and>
    (\<forall>q<2. \<forall>a<size_m g. strategy g ! q ! a \<le> strategy g' ! q ! a)"
proof (cases "algorithm = 0")
  case True
  with FictitiousPlay_result [OF assms] show ?thesis
    by (simp add: Iteration_def)
next
  case False
  show ?thesis
  proof (cases "algorithm = 1")
    case True
    have "Iteration g algorithm = Some (CFR g)"
      using True by (simp add: Iteration_def)
    then show ?thesis
      using assms by (simp add: game_ok_CFR strategy_mono_CFR)
  next
    case neither: False
    have "Iteration g algorithm = Some (CFRPlus g)"
      using False neither by (simp add: Iteration_def)
    then show ?thesis
      using assms by (simp add: game_ok_CFRPlus strategy_mono_CFRPlus)
  qed
qed

lemma reachable_game_ok: "reachable g \<Longrightarrow> game_ok g"
proof (induction rule: reachable.induct)
  case (constructed n draws)
  then show ?case by (rule game_ok_MatrixGame_new)
next
  case (iterated g algorithm g')
  from Iteration_total [OF iterated.IH, of algorithm] iterated.hyps(2)
  show ?case by auto
qed

lemma reachable_example_game: "reachable example_game"
  unfolding example_game_def by (rule reachable.constructed) (simp_all add: draw_ok_def)

text \<open>
  Claim C5. \<^verbatim>\<open>GetNormalizedStrategy\<close> divides each entry of the strategy accumulator by
  the accumulator's total, and returns the uniform distribution when the total is zero;
  at every reachable state the result has non-negative entries that sum to 1.
\<close>

theorem GetNormalizedStrategy_is_average:
  assumes "reachable g" and "p < 2"
  shows "GetNormalizedStrategy g p = average_strategy (strategy g ! p)
       \<and> distribution (GetNormalizedStrategy g p)"
  using assms
  by (intro conjI GetNormalizedStrategy_average_eq GetNormalizedStrategy_distribution
      reachable_game_ok)

theorem GetNormalizedStrategy_is_average_witness:
  "reachable example_game \<and> (0::nat) < 2
   \<and> GetNormalizedStrategy example_game 0 = [1/2, 1/2]
   \<and> distribution (GetNormalizedStrategy example_game 0)"
proof -
  have h: "reachable example_game" "(0::nat) < 2"
    by (simp_all add: reachable_example_game)
  note inst = GetNormalizedStrategy_is_average [OF h]
  from inst have "GetNormalizedStrategy example_game 0 = average_strategy (strategy example_game ! 0)"
    by blast
  also have "\<dots> = [1/2, 1/2]"
    by (simp add: example_game_def MatrixGame_new_def average_strategy_def numeral_2_eq_2)
  finally have "GetNormalizedStrategy example_game 0 = [1/2, 1/2]" .
  with inst h show ?thesis by blast
qed

text \<open>
  Claim C8. Monotone accumulation: an iteration of any of the three algorithms (any
  selector value) leaves no entry of a strategy accumulator smaller than it was.
\<close>

theorem strategy_accumulator_monotone:
  assumes "reachable g" and "Iteration g algorithm = Some g'" and "p < 2" and "a < size_m g"
  shows "strategy g ! p ! a \<le> strategy g' ! p ! a"
  using Iteration_total [OF reachable_game_ok [OF assms(1)], of algorithm] assms(2-4)
  by auto

lemma CFR_example_game:
  "CFR example_game = \<lparr>size_m = 2, iterationCount = 1, payoffs = [1/2, 0, 0, 0],
     strategy = [[1/2, 1/2], [1/2, 1/2]], cfr = [[1/8, - 1/8], [- 1/4, 1/4]]\<rparr>"
  by code_simp

theorem strategy_accumulator_monotone_witness:
  "reachable example_game \<and> Iteration example_game 1 = Some (CFR example_game)
   \<and> (0::nat) < 2 \<and> (0::nat) < size_m example_game
   \<and> strategy example_game ! 0 ! 0 = 0 \<and> strategy (CFR example_game) ! 0 ! 0 = 1/2
   \<and> strategy example_game ! 0 ! 0 \<le> strategy (CFR example_game) ! 0 ! 0"
proof -
  have h: "reachable example_game" "Iteration example_game 1 = Some (CFR example_game)"
    "(0::nat) < 2" "(0::nat) < size_m example_game"
    by (rule reachable_example_game)
      (simp_all add: Iteration_def example_game_def MatrixGame_new_def)
  have v: "strategy example_game ! 0 ! 0 = 0" "strategy (CFR example_game) ! 0 ! 0 = 1/2"
    by (simp_all add: CFR_example_game) (simp add: example_game_def MatrixGame_new_def
      numeral_2_eq_2)
  from strategy_accumulator_monotone [OF h] h v show ?thesis
    by blast
qed

section \<open>CFR+ keeps regrets non-negative\<close>

lemma CFRPlus_player_cfr_nth:
  assumes "game_ok g" "p < 2" "a < size_m g"
  shows "cfr (CFRPlus_player g p) ! p ! a =
           max 0 (cfr g ! p ! a + expected_payoff g p (GetCurrentStrategy g (p XOR 1)) a
                  - (\<Sum>a<size_m g. GetCurrentStrategy g p ! a
                        * expected_payoff g p (GetCurrentStrategy g (p XOR 1)) a))"
proof -
  have "length (cfr g ! p) = size_m g"
    using assms by (simp add: game_ok_iff)
  from fold_update_map [OF this, of "\<lambda>a x. max 0 (x +
      map (expected_payoff g p (GetCurrentStrategy g (p XOR 1))) [0..<size_m g] ! a
      - (\<Sum>a<size_m g. GetCurrentStrategy g p ! a
            * expected_payoff g p (GetCurrentStrategy g (p XOR 1)) a))"]
  show ?thesis
    using assms by (simp add: CFRPlus_player_cfr game_ok_iff)
qed

lemma CFRPlus_player_cfr_other:
  "q \<noteq> p \<Longrightarrow> cfr (CFRPlus_player g p) ! q = cfr g ! q"
  by (simp add: CFRPlus_player_cfr)

lemma regrets_nonneg_iff:
  "game_ok g \<Longrightarrow> regrets_nonneg g \<longleftrightarrow> (\<forall>p<2. \<forall>a<size_m g. 0 \<le> cfr g ! p ! a)"
  by (simp add: regrets_nonneg_def list_all_nth game_ok_iff)

lemma regrets_nonneg_CFRPlus:
  assumes ok: "game_ok g"
  shows "regrets_nonneg (CFRPlus g)"
proof -
  let ?g0 = "g\<lparr>iterationCount := iterationCount g + 1\<rparr>"
  let ?g1 = "CFRPlus_player ?g0 0"
  have ok0: "game_ok ?g0" using ok by (simp add: game_ok_iterationCount)
  have ok1: "game_ok ?g1" using ok0 by (simp add: game_ok_CFRPlus_player)
  have "0 \<le> cfr (CFRPlus_player ?g1 1) ! p ! a" if "p < 2" "a < size_m g" for p a
  proof (cases "p = 0")
    case True
    have "cfr (CFRPlus_player ?g1 1) ! 0 ! a = cfr ?g1 ! 0 ! a"
      by (simp add: CFRPlus_player_cfr_other)
    also have "0 \<le> \<dots>"
      using that by (simp add: CFRPlus_player_cfr_nth [OF ok0])
    finally show ?thesis using True by simp
  next
    case False
    with that have "p = 1" by simp
    then show ?thesis
      using that by (simp add: CFRPlus_player_cfr_nth [OF ok1])
  qed
  then show ?thesis
    using game_ok_CFRPlus [OF ok] by (simp add: regrets_nonneg_iff CFRPlus_def)
qed

lemma game_ok_CFRPlus_funpow: "game_ok g \<Longrightarrow> game_ok ((CFRPlus ^^ k) g)"
  by (induction k) (simp_all add: game_ok_CFRPlus)

lemma regrets_nonneg_new:
  "regrets_nonneg (MatrixGame_new n draws)"
  by (simp add: regrets_nonneg_def MatrixGame_new_def list_all_iff)

text \<open>
  Claim C3. After any number of CFR+ iterations from the zero-initialised state of a
  constructed game, no entry of a regret accumulator is negative: each CFR+ per-player
  update sets \<open>R[player][a]\<close> to \<open>max 0 (R[player][a] + cfu[a] - ev)\<close>, and a whole CFR+
  iteration of a well-formed state leaves every regret entry non-negative.
\<close>

theorem CFRPlus_regrets_nonneg:
  assumes "0 < n" and "length draws = n * n" and "list_all draw_ok draws"
  shows "regrets_nonneg ((CFRPlus ^^ k) (MatrixGame_new n draws))
    \<and> (\<forall>g p a. game_ok g \<and> p < 2 \<and> a < size_m g \<longrightarrow>
          cfr (CFRPlus_player g p) ! p ! a =
            max 0 (cfr g ! p ! a + expected_payoff g p (GetCurrentStrategy g (p XOR 1)) a
                   - (\<Sum>a<size_m g. GetCurrentStrategy g p ! a
                         * expected_payoff g p (GetCurrentStrategy g (p XOR 1)) a)))
    \<and> (\<forall>g. game_ok g \<longrightarrow> regrets_nonneg (CFRPlus g))"
proof (intro conjI allI impI)
  have ok: "game_ok (MatrixGame_new n draws)"
    using assms by (rule game_ok_MatrixGame_new)
  show "regrets_nonneg ((CFRPlus ^^ k) (MatrixGame_new n draws))"
  proof (cases k)
    case 0
    then show ?thesis by (simp add: regrets_nonneg_new)
  next
    case (Suc j)
    then show ?thesis
      using game_ok_CFRPlus_funpow [OF ok, of j] by (simp add: regrets_nonneg_CFRPlus)
  qed
next
  fix g :: MatrixGame and p a :: nat
  assume "game_ok g \<and> p < 2 \<and> a < size_m g"
  then show "cfr (CFRPlus_player g p) ! p ! a =
            max 0 (cfr g ! p ! a + expected_payoff g p (GetCurrentStrategy g (p XOR 1)) a
                   - (\<Sum>a<size_m g. GetCurrentStrategy g p ! a
                         * expected_payoff g p (GetCurrentStrategy g (p XOR 1)) a))"
    by (simp add: CFRPlus_player_cfr_nth)
next
  fix g :: MatrixGame
  assume "game_ok g"
  then show "regrets_nonneg (CFRPlus g)" by (rule regrets_nonneg_CFRPlus)
qed

lemma CFRPlus_example_game:
  "CFRPlus example_game = \<lparr>size_m = 2, iterationCount = 1, payoffs = [1/2, 0, 0, 0],
     strategy = [[1/2, 1/2], [1/2, 1/2]], cfr = [[1/8, 0], [0, 1/4]]\<rparr>"
  by code_simp

lemma CFRPlus_second_example:
  "CFRPlus \<lparr>size_m = 2, iterationCount = 1, payoffs = [1/2, 0, 0, 0],
     strategy = [[1/2, 1/2], [1/2, 1/2]], cfr = [[1/8, 0], [0, 1/4]]\<rparr>
   = \<lparr>size_m = 2, iterationCount = 2, payoffs = [1/2, 0, 0, 0],
     strategy = [[9/2, 1/2], [1/2, 9/2]], cfr = [[1/8, 0], [0, 1/4]]\<rparr>"
  by code_simp

lemma CFRPlus_twice: "(CFRPlus ^^ 2) g = CFRPlus (CFRPlus g)"
  by (simp add: numeral_2_eq_2)

lemma CFRPlus_twice_example:
  "(CFRPlus ^^ 2) example_game = \<lparr>size_m = 2, iterationCount = 2, payoffs = [1/2, 0, 0, 0],
     strategy = [[9/2, 1/2], [1/2, 9/2]], cfr = [[1/8, 0], [0, 1/4]]\<rparr>"
  by (simp only: CFRPlus_twice CFRPlus_example_game CFRPlus_second_example)

theorem CFRPlus_regrets_nonneg_witness:
  "(0::nat) < 2 \<and> length [1/2, 0, 0, 0::real] = 2 * 2 \<and> list_all draw_ok [1/2, 0, 0, 0]
   \<and> regrets_nonneg ((CFRPlus ^^ 2) (MatrixGame_new 2 [1/2, 0, 0, 0]))
   \<and> cfr ((CFRPlus ^^ 2) (MatrixGame_new 2 [1/2, 0, 0, 0])) = [[1/8, 0], [0, 1/4]]"
proof -
  have h: "(0::nat) < 2" "length [1/2, 0, 0, 0::real] = 2 * 2" "list_all draw_ok [1/2, 0, 0, 0]"
    by (simp_all add: draw_ok_def)
  have "cfr ((CFRPlus ^^ 2) (MatrixGame_new 2 [1/2, 0, 0, 0])) = [[1/8, 0], [0, 1/4]]"
    using CFRPlus_twice_example by (simp add: example_game_def)
  with CFRPlus_regrets_nonneg [OF h, of 2] h show ?thesis
    by blast
qed

section \<open>The algorithm selector\<close>

text \<open>
  Claim C9. Every selector value other than 0 and 1 (2, negative values, values above 2)
  makes \<^verbatim>\<open>Iteration\<close> perform a CFR+ iteration, and at a reachable state no
  selector value at all makes \<^verbatim>\<open>Iteration\<close> fail: it always yields a next state.
\<close>

theorem Iteration_default_is_CFRPlus:
  "(algorithm \<noteq> 0 \<and> algorithm \<noteq> 1 \<longrightarrow> Iteration g algorithm = Some (CFRPlus g))
   \<and> (reachable g \<longrightarrow> (\<exists>g'. Iteration g algorithm = Some g' \<and> reachable g'))"
proof (intro conjI impI)
  assume "algorithm \<noteq> 0 \<and> algorithm \<noteq> 1"
  then show "Iteration g algorithm = Some (CFRPlus g)"
    by (simp add: Iteration_def)
next
  assume r: "reachable g"
  from Iteration_total [OF reachable_game_ok [OF r], of algorithm]
  obtain g' where "Iteration g algorithm = Some g'" by blast
  with r show "\<exists>g'. Iteration g algorithm = Some g' \<and> reachable g'"
    by (blast intro: reachable.iterated)
qed

theorem Iteration_default_is_CFRPlus_witness:
  "(7::int) \<noteq> 0 \<and> (7::int) \<noteq> 1 \<and> Iteration example_game 7 = Some (CFRPlus example_game)
   \<and> (- 3::int) \<noteq> 0 \<and> (- 3::int) \<noteq> 1 \<and> Iteration example_game (- 3) = Some (CFRPlus example_game)
   \<and> Iteration example_game 2 = Some (CFRPlus example_game)
   \<and> reachable example_game \<and> (\<exists>g'. Iteration example_game 7 = Some g' \<and> reachable g')"
proof -
  have "(7::int) \<noteq> 0" "(7::int) \<noteq> 1" "(- 3::int) \<noteq> 0" "(- 3::int) \<noteq> 1"
    "(2::int) \<noteq> 0" "(2::int) \<noteq> 1"
    by simp_all
  with Iteration_default_is_CFRPlus [of 7 example_game]
    Iteration_default_is_CFRPlus [of "- 3" example_game]
    Iteration_default_is_CFRPlus [of 2 example_game]
    reachable_example_game
  show ?thesis by blast
qed

section \<open>Method calls that only read\<close>

lemma call_method_query:
  "is_query c \<Longrightarrow> \<exists>r. call_method g c = Some (r, g)"
  by (cases c) simp_all

lemma call_methods_replicate:
  "call_method g c = Some (r, g) \<Longrightarrow> call_methods g (replicate k c) = Some (replicate k r, g)"
  by (induction k) simp_all

lemma call_methods_without_queries:
  "call_methods g cs = Some (rs, g') \<Longrightarrow>
   \<exists>rs'. call_methods g (filter (\<lambda>c. \<not> is_query c) cs) = Some (rs', g')"
proof (induction cs arbitrary: g rs)
  case Nil
  then show ?case by simp
next
  case (Cons c cs)
  from Cons.prems obtain r g1 rs1 where
    c: "call_method g c = Some (r, g1)" and cs: "call_methods g1 cs = Some (rs1, g')"
    by (auto split: option.splits prod.splits)
  from Cons.IH [OF cs] obtain rs' where
    rs': "call_methods g1 (filter (\<lambda>c. \<not> is_query c) cs) = Some (rs', g')"
    by blast
  show ?case
  proof (cases "is_query c")
    case True
    with c have "g1 = g" by (cases c) simp_all
    with True rs' show ?thesis by simp
  next
    case False
    with c rs' show ?thesis by simp
  qed
qed

lemma upt_2: "[0..<2] = [0, 1]"
  by (simp add: upt_rec)

lemma GetExploitability_example: "GetExploitability example_game = 1/8"
  using DBL_MAX_gt_1
  by (simp add: GetExploitability_def BestResponse_def GetNormalizedStrategy_def
      action_value_def GetPayoff_def example_game_def MatrixGame_new_def Let_def
      upt_2 numeral_2_eq_2 [symmetric])

text \<open>
  Claim C10. \<^verbatim>\<open>GetExploitability\<close> and \<^verbatim>\<open>GetIterationCount\<close> are pure queries: a call
  returns a value and leaves the whole solver object as it was, any number of repeated
  calls on a state return the same value and leave that state, and removing the queries
  from a sequence of calls does not change the state the sequence ends in.
\<close>

theorem queries_are_pure:
  assumes "is_query c"
  shows "(\<exists>r. call_method g c = Some (r, g)
              \<and> call_methods g (replicate k c) = Some (replicate k r, g))
    \<and> (\<forall>cs rs g'. call_methods g cs = Some (rs, g') \<longrightarrow>
          (\<exists>rs'. call_methods g (filter (\<lambda>c. \<not> is_query c) cs) = Some (rs', g')))"
proof -
  from call_method_query [OF assms] obtain r where "call_method g c = Some (r, g)"
    by blast
  then have "call_method g c = Some (r, g)
      \<and> call_methods g (replicate k c) = Some (replicate k r, g)"
    by (simp add: call_methods_replicate)
  then show ?thesis
    by (blast intro: call_methods_without_queries)
qed

theorem queries_are_pure_witness:
  "is_query Call_GetExploitability
   \<and> call_method example_game Call_GetExploitability = Some (Ret_double (1/8), example_game)
   \<and> call_methods example_game (replicate 3 Call_GetExploitability)
       = Some (replicate 3 (Ret_double (1/8)), example_game)
   \<and> call_methods example_game [Call_GetExploitability, Call_Iteration 1, Call_GetIterationCount]
       = Some ([Ret_double (1/8), Ret_void, Ret_int 1], CFR example_game)
   \<and> (\<exists>rs'. call_methods example_game
         (filter (\<lambda>c. \<not> is_query c) [Call_GetExploitability, Call_Iteration 1, Call_GetIterationCount])
       = Some (rs', CFR example_game))"
proof -
  have q: "is_query Call_GetExploitability" by simp
  have one: "call_method example_game Call_GetExploitability
      = Some (Ret_double (1/8), example_game)"
    by (simp add: GetExploitability_example)
  have run: "call_methods example_game
      [Call_GetExploitability, Call_Iteration 1, Call_GetIterationCount]
       = Some ([Ret_double (1/8), Ret_void, Ret_int 1], CFR example_game)"
    by (simp add: GetExploitability_example Iteration_def CFR_example_game
        GetIterationCount_def)
  note inst = queries_are_pure [OF q, of example_game 3]
  from inst one have "call_methods example_game (replicate 3 Call_GetExploitability)
       = Some (replicate 3 (Ret_double (1/8)), example_game)"
    by auto
  moreover from inst run have "\<exists>rs'. call_methods example_game
         (filter (\<lambda>c. \<not> is_query c) [Call_GetExploitability, Call_Iteration 1, Call_GetIterationCount])
       = Some (rs', CFR example_game)"
    by blast
  ultimately show ?thesis
    using q one run by blast
qed

section \<open>Fictitious Play\<close>

lemma xor_one_neq: "p < 2 \<Longrightarrow> p XOR (1::nat) \<noteq> p"
  by (cases p) (auto simp: less_Suc_eq numeral_2_eq_2)

lemma replicate_2: "replicate 2 x = [x, x]"
  by (simp add: numeral_2_eq_2)

text \<open>
  Claim C6. One Fictitious Play update of a player on a well-formed state adds exactly 1
  to exactly one entry of that player's strategy accumulator and changes nothing else
  (the other entries, the opponent's accumulator, both regret accumulators, the payoffs,
  the size and the counter); the entry is the first action (lowest index) of maximal
  expected payoff against the opponent's average strategy at the time of the call.
\<close>

theorem FictitiousPlay_player_single_increment:
  assumes "game_ok g" and "player < 2"
  shows "\<exists>k g'. k < size_m g \<and> FictitiousPlay_player g player = Some g'
     \<and> length (strategy g' ! player) = size_m g
     \<and> (\<forall>a<size_m g. strategy g' ! player ! a
            = strategy g ! player ! a + (if a = k then 1 else 0))
     \<and> strategy g' ! (player XOR 1) = strategy g ! (player XOR 1)
     \<and> cfr g' = cfr g \<and> payoffs g' = payoffs g \<and> size_m g' = size_m g
     \<and> iterationCount g' = iterationCount g
     \<and> (\<forall>a<size_m g.
           expected_payoff g player (average_strategy (strategy g ! (player XOR 1))) a
           \<le> expected_payoff g player (average_strategy (strategy g ! (player XOR 1))) k)
     \<and> (\<forall>a<k.
           expected_payoff g player (average_strategy (strategy g ! (player XOR 1))) a
           < expected_payoff g player (average_strategy (strategy g ! (player XOR 1))) k)"
proof -
  have q: "player XOR 1 < 2" "player XOR 1 \<noteq> player"
    using assms(2) by (rule xor_one_less, rule xor_one_neq)
  have avg: "GetNormalizedStrategy g (player XOR 1)
      = average_strategy (strategy g ! (player XOR 1))"
    using assms(1) q(1) by (rule GetNormalizedStrategy_average_eq)
  have len: "length (strategy g) = 2" "length (strategy g ! player) = size_m g"
    using assms by (simp_all add: game_ok_iff)
  from FictitiousPlay_player_result [OF assms] obtain k where k:
    "k < size_m g"
    "FictitiousPlay_player g player =
       Some (g\<lparr>strategy := (strategy g)[player :=
         (strategy g ! player)[k := strategy g ! player ! k + 1]]\<rparr>)"
    "\<forall>a<size_m g. expected_payoff g player (GetNormalizedStrategy g (player XOR 1)) a
        \<le> expected_payoff g player (GetNormalizedStrategy g (player XOR 1)) k"
    "\<forall>a<k. expected_payoff g player (GetNormalizedStrategy g (player XOR 1)) a
        < expected_payoff g player (GetNormalizedStrategy g (player XOR 1)) k"
    by blast
  let ?g' = "g\<lparr>strategy := (strategy g)[player :=
         (strategy g ! player)[k := strategy g ! player ! k + 1]]\<rparr>"
  have "\<forall>a<size_m g. strategy ?g' ! player ! a
            = strategy g ! player ! a + (if a = k then 1 else 0)"
    using assms(2) len k(1) by (simp add: nth_list_update)
  moreover have "strategy ?g' ! (player XOR 1) = strategy g ! (player XOR 1)"
    using q(2) by simp
  moreover have "length (strategy ?g' ! player) = size_m g"
    using assms(2) len by simp
  ultimately show ?thesis
    using k unfolding avg
    by (intro exI [of _ k] exI [of _ ?g']) simp
qed

lemma FictitiousPlay_player_example:
  "FictitiousPlay_player started_game 0 = Some (started_game\<lparr>strategy := [[1, 0], [0, 0]]\<rparr>)"
  using DBL_MAX_gt_1
  by (simp add: FictitiousPlay_player_def GetNormalizedStrategy_def
      action_value_def GetPayoff_def started_game_def example_game_def MatrixGame_new_def Let_def
      upt_2 replicate_2)

lemma game_ok_started_game: "game_ok started_game"
  by (simp add: started_game_def example_game_def game_ok_iterationCount
      game_ok_MatrixGame_new draw_ok_def)

theorem FictitiousPlay_player_single_increment_witness:
  "game_ok started_game \<and> (0::nat) < 2
   \<and> FictitiousPlay_player started_game 0 = Some (started_game\<lparr>strategy := [[1, 0], [0, 0]]\<rparr>)
   \<and> (\<exists>k g'. k < size_m started_game \<and> FictitiousPlay_player started_game 0 = Some g'
        \<and> strategy g' ! 0 ! k = strategy started_game ! 0 ! k + 1 \<and> cfr g' = cfr started_game)"
proof -
  have h: "game_ok started_game" "(0::nat) < 2"
    by (simp_all add: game_ok_started_game)
  from FictitiousPlay_player_single_increment [OF h] obtain k g' where
    "k < size_m started_game" "FictitiousPlay_player started_game 0 = Some g'"
    "\<forall>a<size_m started_game. strategy g' ! 0 ! a
            = strategy started_game ! 0 ! a + (if a = k then 1 else 0)"
    "cfr g' = cfr started_game"
    by blast
  then have "\<exists>k g'. k < size_m started_game \<and> FictitiousPlay_player started_game 0 = Some g'
        \<and> strategy g' ! 0 ! k = strategy started_game ! 0 ! k + 1 \<and> cfr g' = cfr started_game"
    by (intro exI [of _ k] exI [of _ g']) simp
  with h FictitiousPlay_player_example show ?thesis
    by blast
qed

section \<open>Best response and exploitability\<close>

lemma BestResponse_eq_Max:
  assumes ok: "game_ok g" and p: "p < 2"
  shows "BestResponse g p
    = Max (expected_payoff g p (GetNormalizedStrategy g (p XOR 1)) ` {..<size_m g})"
proof -
  let ?f = "action_value g p (GetNormalizedStrategy g (p XOR 1))"
  have q: "p XOR 1 < 2" using p by (rule xor_one_less)
  have n: "0 < size_m g" using ok by (simp add: game_ok_iff)
  have low: "- 1 \<le> ?f 0"
    unfolding action_value_sum using ok
    by (intro expected_payoff_lower GetNormalizedStrategy_nonneg GetNormalizedStrategy_sum q n)
  have ne: "?f ` {..<size_m g} \<noteq> {}" using n by auto
  have "BestResponse g p = Max (insert (- DBL_MAX) (?f ` {..<size_m g}))"
    unfolding BestResponse_def Let_def fold_max [unfolded Let_def] ..
  also have "\<dots> = max (- DBL_MAX) (Max (?f ` {..<size_m g}))"
    using ne by (intro Max_insert) simp_all
  also have "\<dots> = Max (?f ` {..<size_m g})"
  proof -
    have "?f 0 \<le> Max (?f ` {..<size_m g})"
      using n by (intro Max_ge) simp_all
    with low DBL_MAX_gt_1 show ?thesis by (simp add: max_def)
  qed
  finally show ?thesis
    by (simp only: action_value_sum [abs_def])
qed

lemma BestResponse_ge:
  assumes "game_ok g" "p < 2" "a < size_m g"
  shows "expected_payoff g p (GetNormalizedStrategy g (p XOR 1)) a \<le> BestResponse g p"
  unfolding BestResponse_eq_Max [OF assms(1,2)]
  using assms(3) by (intro Max_ge) simp_all

lemma mixed_le_BestResponse:
  assumes ok: "game_ok g" and p: "p < 2"
    and nonneg: "\<And>a. a < size_m g \<Longrightarrow> 0 \<le> x ! a"
    and one: "(\<Sum>a<size_m g. x ! a) = 1"
  shows "(\<Sum>a<size_m g. x ! a * expected_payoff g p (GetNormalizedStrategy g (p XOR 1)) a)
    \<le> BestResponse g p"
proof -
  have "(\<Sum>a<size_m g. x ! a * expected_payoff g p (GetNormalizedStrategy g (p XOR 1)) a)
      \<le> (\<Sum>a<size_m g. x ! a * BestResponse g p)"
  proof (rule sum_mono)
    fix a assume "a \<in> {..<size_m g}"
    then have "a < size_m g" by simp
    then show "x ! a * expected_payoff g p (GetNormalizedStrategy g (p XOR 1)) a
        \<le> x ! a * BestResponse g p"
      by (intro mult_left_mono nonneg BestResponse_ge [OF ok p])
  qed
  also have "\<dots> = BestResponse g p"
    using one by (simp add: sum_distrib_right [symmetric])
  finally show ?thesis .
qed

lemma zero_sum_mixed:
  "(\<Sum>a<size_m g. x ! a * expected_payoff g 0 y a)
   + (\<Sum>b<size_m g. y ! b * expected_payoff g 1 x b) = 0"
proof -
  have "(\<Sum>b<size_m g. y ! b * expected_payoff g 1 x b)
      = (\<Sum>b<size_m g. \<Sum>a<size_m g. - (x ! a * (y ! b * GetPayoff g 0 a b)))"
    by (simp add: expected_payoff_def sum_distrib_left GetPayoff_def mult.left_commute)
  also have "\<dots> = (\<Sum>a<size_m g. \<Sum>b<size_m g. - (x ! a * (y ! b * GetPayoff g 0 a b)))"
    by (rule sum.swap)
  also have "\<dots> = - (\<Sum>a<size_m g. x ! a * expected_payoff g 0 y a)"
    by (simp add: expected_payoff_def sum_distrib_left sum_negf)
  finally show ?thesis by simp
qed

lemma GetExploitability_nonneg:
  assumes ok: "game_ok g"
  shows "0 \<le> GetExploitability g"
proof -
  have n: "0 < size_m g" using ok by (simp add: game_ok_iff)
  let ?x = "GetNormalizedStrategy g 0" and ?y = "GetNormalizedStrategy g 1"
  have "(\<Sum>a<size_m g. ?x ! a * expected_payoff g 0 (GetNormalizedStrategy g (0 XOR 1)) a)
      \<le> BestResponse g 0"
    using ok n by (intro mixed_le_BestResponse GetNormalizedStrategy_nonneg
        GetNormalizedStrategy_sum) simp_all
  moreover have "(\<Sum>b<size_m g. ?y ! b * expected_payoff g 1 (GetNormalizedStrategy g (1 XOR 1)) b)
      \<le> BestResponse g 1"
    using ok n by (intro mixed_le_BestResponse GetNormalizedStrategy_nonneg
        GetNormalizedStrategy_sum) simp_all
  moreover have "(\<Sum>a<size_m g. ?x ! a * expected_payoff g 0 ?y a)
      + (\<Sum>b<size_m g. ?y ! b * expected_payoff g 1 ?x b) = 0"
    by (rule zero_sum_mixed)
  ultimately have "0 \<le> BestResponse g 0 + BestResponse g 1"
    by simp
  then show ?thesis
    by (simp add: GetExploitability_def)
qed

text \<open>
  Claim C2. \<^verbatim>\<open>GetExploitability\<close> is the average of the two best-response values; the
  best-response value of a player is the maximum over that player's actions of the
  expected payoff against the opponent's average strategy; and at every reachable state
  the exploitability is not negative.
\<close>

theorem GetExploitability_average_nonneg:
  assumes "reachable g"
  shows "GetExploitability g = (BestResponse g 0 + BestResponse g 1) / 2
    \<and> (\<forall>player<2. BestResponse g player
          = Max (expected_payoff g player (average_strategy (strategy g ! (player XOR 1)))
                 ` {..<size_m g}))
    \<and> 0 \<le> GetExploitability g"
proof -
  have ok: "game_ok g" using assms by (rule reachable_game_ok)
  have "BestResponse g player
          = Max (expected_payoff g player (average_strategy (strategy g ! (player XOR 1)))
                 ` {..<size_m g})" if "player < 2" for player
    using BestResponse_eq_Max [OF ok that]
      GetNormalizedStrategy_average_eq [OF ok xor_one_less [OF that]]
    by simp
  moreover have "0 \<le> GetExploitability g"
    using ok by (rule GetExploitability_nonneg)
  ultimately show ?thesis
    by (simp add: GetExploitability_def)
qed

theorem GetExploitability_average_nonneg_witness:
  "reachable example_game \<and> GetExploitability example_game = 1/8
   \<and> GetExploitability example_game = (BestResponse example_game 0 + BestResponse example_game 1) / 2
   \<and> 0 \<le> GetExploitability example_game"
  using GetExploitability_average_nonneg [OF reachable_example_game]
    reachable_example_game GetExploitability_example
  by blast

section \<open>The order of the two per-player updates\<close>

lemma CFR_player_other:
  "q \<noteq> p \<Longrightarrow> cfr (CFR_player g p) ! q = cfr g ! q"
  "q \<noteq> p \<Longrightarrow> strategy (CFR_player g p) ! q = strategy g ! q"
  by (simp_all add: CFR_player_cfr CFR_player_strategy)

lemma CFRPlus_player_other:
  "q \<noteq> p \<Longrightarrow> cfr (CFRPlus_player g p) ! q = cfr g ! q"
  "q \<noteq> p \<Longrightarrow> strategy (CFRPlus_player g p) ! q = strategy g ! q"
  by (simp_all add: CFRPlus_player_cfr CFRPlus_player_strategy)

lemma GetCurrentStrategy_CFR_player_other:
  "q \<noteq> p \<Longrightarrow> GetCurrentStrategy (CFR_player g p) q = GetCurrentStrategy g q"
  by (rule GetCurrentStrategy_cong) (simp_all add: CFR_player_other)

lemma GetCurrentStrategy_CFRPlus_player_other:
  "q \<noteq> p \<Longrightarrow> GetCurrentStrategy (CFRPlus_player g p) q = GetCurrentStrategy g q"
  by (rule GetCurrentStrategy_cong) (simp_all add: CFRPlus_player_other)

lemma strategy_CFR_player_twice:
  assumes "q \<noteq> p"
  shows "strategy (CFR_player (CFR_player g p) q) = (strategy g)
     [p := fold (\<lambda>a s. s[a := s ! a + GetCurrentStrategy g p ! a]) [0..<size_m g]
             (strategy g ! p),
      q := fold (\<lambda>a s. s[a := s ! a + GetCurrentStrategy g q ! a]) [0..<size_m g]
             (strategy g ! q)]"
  using assms
  by (simp add: CFR_player_strategy [of "CFR_player g p"]
      GetCurrentStrategy_CFR_player_other CFR_player_other)
    (simp add: CFR_player_strategy)

lemma strategy_CFRPlus_player_twice:
  assumes "q \<noteq> p"
  shows "strategy (CFRPlus_player (CFRPlus_player g p) q) = (strategy g)
     [p := fold (\<lambda>a s. s[a := s ! a + GetCurrentStrategy g p ! a
                * real_of_int (iterationCount g) * real_of_int (iterationCount g)])
             [0..<size_m g] (strategy g ! p),
      q := fold (\<lambda>a s. s[a := s ! a + GetCurrentStrategy g q ! a
                * real_of_int (iterationCount g) * real_of_int (iterationCount g)])
             [0..<size_m g] (strategy g ! q)]"
  using assms
  by (simp add: CFRPlus_player_strategy [of "CFRPlus_player g p"]
      GetCurrentStrategy_CFRPlus_player_other CFRPlus_player_other)
    (simp add: CFRPlus_player_strategy)

lemma strategy_CFR_player_commute:
  "strategy (CFR_player (CFR_player g 0) 1) = strategy (CFR_player (CFR_player g 1) 0)"
  by (simp add: strategy_CFR_player_twice list_update_swap [of 0 "Suc 0"])

lemma strategy_CFRPlus_player_commute:
  "strategy (CFRPlus_player (CFRPlus_player g 0) 1)
   = strategy (CFRPlus_player (CFRPlus_player g 1) 0)"
  by (simp add: strategy_CFRPlus_player_twice list_update_swap [of 0 "Suc 0"])

lemma expected_payoff_cong:
  "size_m g' = size_m g \<Longrightarrow> payoffs g' = payoffs g \<Longrightarrow>
   expected_payoff g' p ns a = expected_payoff g p ns a"
  by (simp add: expected_payoff_def GetPayoff_def cong: if_cong)

lemma CFR_player_cfr_nth:
  assumes "game_ok g" "p < 2" "a < size_m g"
  shows "cfr (CFR_player g p) ! p ! a =
           cfr g ! p ! a + (expected_payoff g p (GetCurrentStrategy g (p XOR 1)) a
                  - (\<Sum>a<size_m g. GetCurrentStrategy g p ! a
                        * expected_payoff g p (GetCurrentStrategy g (p XOR 1)) a))"
proof -
  have "length (cfr g ! p) = size_m g"
    using assms by (simp add: game_ok_iff)
  from fold_update_map [OF this, of "\<lambda>a x. x +
      (map (expected_payoff g p (GetCurrentStrategy g (p XOR 1))) [0..<size_m g] ! a
      - (\<Sum>a<size_m g. GetCurrentStrategy g p ! a
            * expected_payoff g p (GetCurrentStrategy g (p XOR 1)) a))"]
  show ?thesis
    using assms by (simp add: CFR_player_cfr game_ok_iff)
qed

lemma second_player_regret_CFR:
  assumes ok: "game_ok g" and a: "a < size_m g"
  shows "cfr (CFR_player (CFR_player g 0) 1) ! 1 ! a =
     cfr g ! 1 ! a + (expected_payoff g 1 (GetCurrentStrategy (CFR_player g 0) 0) a
        - (\<Sum>b<size_m g. GetCurrentStrategy g 1 ! b
              * expected_payoff g 1 (GetCurrentStrategy (CFR_player g 0) 0) b))"
proof -
  have ok1: "game_ok (CFR_player g 0)"
    using ok by (simp add: game_ok_CFR_player)
  have e: "expected_payoff (CFR_player g 0) q ns b = expected_payoff g q ns b" for q ns b
    by (rule expected_payoff_cong) simp_all
  show ?thesis
    using CFR_player_cfr_nth [OF ok1, of 1 a] a
    by (simp add: e GetCurrentStrategy_CFR_player_other CFR_player_other)
qed

lemma second_player_regret_CFRPlus:
  assumes ok: "game_ok g" and a: "a < size_m g"
  shows "cfr (CFRPlus_player (CFRPlus_player g 0) 1) ! 1 ! a =
     max 0 (cfr g ! 1 ! a + expected_payoff g 1 (GetCurrentStrategy (CFRPlus_player g 0) 0) a
        - (\<Sum>b<size_m g. GetCurrentStrategy g 1 ! b
              * expected_payoff g 1 (GetCurrentStrategy (CFRPlus_player g 0) 0) b))"
proof -
  have ok1: "game_ok (CFRPlus_player g 0)"
    using ok by (simp add: game_ok_CFRPlus_player)
  have e: "expected_payoff (CFRPlus_player g 0) q ns b = expected_payoff g q ns b" for q ns b
    by (rule expected_payoff_cong) simp_all
  show ?thesis
    using CFRPlus_player_cfr_nth [OF ok1, of 1 a] a
    by (simp add: e GetCurrentStrategy_CFRPlus_player_other CFRPlus_player_other)
qed


lemma list_update_both:
  "length xs = 2 \<Longrightarrow> xs[0 := a, 1 := b] = [a, b]"
  by (cases xs; cases "tl xs") auto

lemma strategy_CFR_player_simultaneous:
  assumes "game_ok g"
  shows "strategy (CFR_player (CFR_player g 0) 1)
    = [strategy (CFR_player g 0) ! 0, strategy (CFR_player g 1) ! 1]"
proof -
  have len: "length (strategy g) = 2"
    using assms by (simp add: game_ok_iff)
  have "strategy (CFR_player (CFR_player g 0) 1) = (strategy g)
     [0 := fold (\<lambda>a s. s[a := s ! a + GetCurrentStrategy g 0 ! a]) [0..<size_m g]
             (strategy g ! 0),
      1 := fold (\<lambda>a s. s[a := s ! a + GetCurrentStrategy g 1 ! a]) [0..<size_m g]
             (strategy g ! 1)]"
    by (rule strategy_CFR_player_twice) simp
  also have "\<dots> =
     [fold (\<lambda>a s. s[a := s ! a + GetCurrentStrategy g 0 ! a]) [0..<size_m g]
             (strategy g ! 0),
      fold (\<lambda>a s. s[a := s ! a + GetCurrentStrategy g 1 ! a]) [0..<size_m g]
             (strategy g ! 1)]"
    using len by (rule list_update_both)
  also have "\<dots> = [strategy (CFR_player g 0) ! 0, strategy (CFR_player g 1) ! 1]"
    using len by (simp add: CFR_player_strategy)
  finally show ?thesis .
qed

lemma strategy_CFRPlus_player_simultaneous:
  assumes "game_ok g"
  shows "strategy (CFRPlus_player (CFRPlus_player g 0) 1)
    = [strategy (CFRPlus_player g 0) ! 0, strategy (CFRPlus_player g 1) ! 1]"
proof -
  have len: "length (strategy g) = 2"
    using assms by (simp add: game_ok_iff)
  have "strategy (CFRPlus_player (CFRPlus_player g 0) 1) = (strategy g)
     [0 := fold (\<lambda>a s. s[a := s ! a + GetCurrentStrategy g 0 ! a
                * real_of_int (iterationCount g) * real_of_int (iterationCount g)])
             [0..<size_m g] (strategy g ! 0),
      1 := fold (\<lambda>a s. s[a := s ! a + GetCurrentStrategy g 1 ! a
                * real_of_int (iterationCount g) * real_of_int (iterationCount g)])
             [0..<size_m g] (strategy g ! 1)]"
    by (rule strategy_CFRPlus_player_twice) simp
  also have "\<dots> =
     [fold (\<lambda>a s. s[a := s ! a + GetCurrentStrategy g 0 ! a
                * real_of_int (iterationCount g) * real_of_int (iterationCount g)])
             [0..<size_m g] (strategy g ! 0),
      fold (\<lambda>a s. s[a := s ! a + GetCurrentStrategy g 1 ! a
                * real_of_int (iterationCount g) * real_of_int (iterationCount g)])
             [0..<size_m g] (strategy g ! 1)]"
    using len by (rule list_update_both)
  also have "\<dots> = [strategy (CFRPlus_player g 0) ! 0, strategy (CFRPlus_player g 1) ! 1]"
    using len by (simp add: CFRPlus_player_strategy)
  finally show ?thesis .
qed

lemma CFR_orders_example:
  "CFR_player (CFR_player started_game 0) 1
     = started_game\<lparr>strategy := [[1/2, 1/2], [1/2, 1/2]],
                     cfr := [[1/8, - 1/8], [- 1/4, 1/4]]\<rparr>"
  "CFR_player (CFR_player started_game 1) 0
     = started_game\<lparr>strategy := [[1/2, 1/2], [1/2, 1/2]],
                     cfr := [[0, 0], [- 1/8, 1/8]]\<rparr>"
  by code_simp+

lemma CFRPlus_orders_example:
  "CFRPlus_player (CFRPlus_player started_game 0) 1
     = started_game\<lparr>strategy := [[1/2, 1/2], [1/2, 1/2]],
                     cfr := [[1/8, 0], [0, 1/4]]\<rparr>"
  "CFRPlus_player (CFRPlus_player started_game 1) 0
     = started_game\<lparr>strategy := [[1/2, 1/2], [1/2, 1/2]],
                     cfr := [[0, 0], [0, 1/8]]\<rparr>"
  by code_simp+

lemma single_updates_example:
  "cfr (CFR_player started_game 1) ! 1 = [- 1/8, 1/8]"
  "cfr (CFRPlus_player started_game 1) ! 1 = [0, 1/8]"
  by code_simp+

lemma CFR_started_game: "CFR example_game = CFR_player (CFR_player started_game 0) 1"
  by (simp add: CFR_def started_game_def example_game_def MatrixGame_new_def)

lemma CFRPlus_started_game:
  "CFRPlus example_game = CFRPlus_player (CFRPlus_player started_game 0) 1"
  by (simp add: CFRPlus_def started_game_def example_game_def MatrixGame_new_def)

text \<open>
  Claim C1, as stated, fails: in one CFR or CFR+ iteration player 1's update is computed
  after player 0's update and reads player 0's already updated regret accumulator. For
  the reachable game \<open>example_game\<close> the two orders of the per-player updates end in
  different regret accumulators, and player 1's regrets after the iteration differ from
  the ones computed from the state at the start of the iteration.
\<close>

theorem CFR_update_order_counterexample:
  "reachable example_game
   \<and> CFR example_game = CFR_player (CFR_player started_game 0) 1
   \<and> cfr (CFR_player (CFR_player started_game 0) 1) = [[1/8, - 1/8], [- 1/4, 1/4]]
   \<and> cfr (CFR_player (CFR_player started_game 1) 0) = [[0, 0], [- 1/8, 1/8]]
   \<and> CFR_player (CFR_player started_game 0) 1 \<noteq> CFR_player (CFR_player started_game 1) 0
   \<and> cfr (CFR_player started_game 1) ! 1 = [- 1/8, 1/8]
   \<and> CFRPlus example_game = CFRPlus_player (CFRPlus_player started_game 0) 1
   \<and> cfr (CFRPlus_player (CFRPlus_player started_game 0) 1) = [[1/8, 0], [0, 1/4]]
   \<and> cfr (CFRPlus_player (CFRPlus_player started_game 1) 0) = [[0, 0], [0, 1/8]]
   \<and> CFRPlus_player (CFRPlus_player started_game 0) 1
       \<noteq> CFRPlus_player (CFRPlus_player started_game 1) 0
   \<and> cfr (CFRPlus_player started_game 1) ! 1 = [0, 1/8]"
proof -
  have v: "cfr (CFR_player (CFR_player started_game 0) 1) = [[1/8, - 1/8], [- 1/4, 1/4]]"
    "cfr (CFR_player (CFR_player started_game 1) 0) = [[0, 0], [- 1/8, 1/8]]"
    "cfr (CFRPlus_player (CFRPlus_player started_game 0) 1) = [[1/8, 0], [0, 1/4]]"
    "cfr (CFRPlus_player (CFRPlus_player started_game 1) 0) = [[0, 0], [0, 1/8]]"
    unfolding CFR_orders_example CFRPlus_orders_example by simp_all
  have "cfr (CFR_player (CFR_player started_game 0) 1)
      \<noteq> cfr (CFR_player (CFR_player started_game 1) 0)"
    unfolding v by simp
  then have ne1: "CFR_player (CFR_player started_game 0) 1
      \<noteq> CFR_player (CFR_player started_game 1) 0"
    by (rule contrapos_nn) (erule arg_cong)
  have "cfr (CFRPlus_player (CFRPlus_player started_game 0) 1)
      \<noteq> cfr (CFRPlus_player (CFRPlus_player started_game 1) 0)"
    unfolding v by simp
  then have ne2: "CFRPlus_player (CFRPlus_player started_game 0) 1
      \<noteq> CFRPlus_player (CFRPlus_player started_game 1) 0"
    by (rule contrapos_nn) (erule arg_cong)
  show ?thesis
    by (intro conjI reachable_example_game CFR_started_game CFRPlus_started_game ne1 ne2 v
        single_updates_example)
qed

text \<open>
  Claim C1, amended. In one CFR or CFR+ iteration player 0's update is computed from the
  state at the start of the iteration and player 1's update from the state that player
  0's update has left. A per-player update writes only its own player's accumulators.
  Both strategy accumulators end as if each update had been computed from the pre-update
  state, so they are the same in either order of the two updates, and player 0's regret
  accumulator is the one computed from the pre-update state; but player 1's regret update
  takes the opponent strategy \<^verbatim>\<open>so\<close> from player 0's already updated regrets (its own
  \<^verbatim>\<open>sp\<close> and its old regrets are the pre-update ones), so the regret accumulators depend
  on the order.
\<close>

theorem CFR_updates_alternate:
  assumes "game_ok g" and "a < size_m g"
  shows "CFR g = CFR_player (CFR_player (g\<lparr>iterationCount := iterationCount g + 1\<rparr>) 0) 1
    \<and> cfr (CFR_player g 0) ! 1 = cfr g ! 1 \<and> strategy (CFR_player g 0) ! 1 = strategy g ! 1
    \<and> cfr (CFR_player g 1) ! 0 = cfr g ! 0 \<and> strategy (CFR_player g 1) ! 0 = strategy g ! 0
    \<and> strategy (CFR_player (CFR_player g 0) 1) = strategy (CFR_player (CFR_player g 1) 0)
    \<and> strategy (CFR_player (CFR_player g 0) 1)
        = [strategy (CFR_player g 0) ! 0, strategy (CFR_player g 1) ! 1]
    \<and> cfr (CFR_player (CFR_player g 0) 1) ! 0 = cfr (CFR_player g 0) ! 0
    \<and> cfr (CFR_player (CFR_player g 0) 1) ! 1 ! a =
         cfr g ! 1 ! a + (expected_payoff g 1 (GetCurrentStrategy (CFR_player g 0) 0) a
           - (\<Sum>b<size_m g. GetCurrentStrategy g 1 ! b
                 * expected_payoff g 1 (GetCurrentStrategy (CFR_player g 0) 0) b))
    \<and> CFRPlus g
        = CFRPlus_player (CFRPlus_player (g\<lparr>iterationCount := iterationCount g + 1\<rparr>) 0) 1
    \<and> cfr (CFRPlus_player g 0) ! 1 = cfr g ! 1
    \<and> strategy (CFRPlus_player g 0) ! 1 = strategy g ! 1
    \<and> cfr (CFRPlus_player g 1) ! 0 = cfr g ! 0
    \<and> strategy (CFRPlus_player g 1) ! 0 = strategy g ! 0
    \<and> strategy (CFRPlus_player (CFRPlus_player g 0) 1)
        = strategy (CFRPlus_player (CFRPlus_player g 1) 0)
    \<and> strategy (CFRPlus_player (CFRPlus_player g 0) 1)
        = [strategy (CFRPlus_player g 0) ! 0, strategy (CFRPlus_player g 1) ! 1]
    \<and> cfr (CFRPlus_player (CFRPlus_player g 0) 1) ! 0 = cfr (CFRPlus_player g 0) ! 0
    \<and> cfr (CFRPlus_player (CFRPlus_player g 0) 1) ! 1 ! a =
         max 0 (cfr g ! 1 ! a
           + expected_payoff g 1 (GetCurrentStrategy (CFRPlus_player g 0) 0) a
           - (\<Sum>b<size_m g. GetCurrentStrategy g 1 ! b
                 * expected_payoff g 1 (GetCurrentStrategy (CFRPlus_player g 0) 0) b))"
proof -
  have "cfr (CFR_player (CFR_player g 0) 1) ! 0 = cfr (CFR_player g 0) ! 0"
    "cfr (CFRPlus_player (CFRPlus_player g 0) 1) ! 0 = cfr (CFRPlus_player g 0) ! 0"
    "cfr (CFR_player g 0) ! 1 = cfr g ! 1" "strategy (CFR_player g 0) ! 1 = strategy g ! 1"
    "cfr (CFR_player g 1) ! 0 = cfr g ! 0" "strategy (CFR_player g 1) ! 0 = strategy g ! 0"
    "cfr (CFRPlus_player g 0) ! 1 = cfr g ! 1"
    "strategy (CFRPlus_player g 0) ! 1 = strategy g ! 1"
    "cfr (CFRPlus_player g 1) ! 0 = cfr g ! 0"
    "strategy (CFRPlus_player g 1) ! 0 = strategy g ! 0"
    by (simp_all add: CFR_player_other CFRPlus_player_other)
  then show ?thesis
    by (intro conjI CFR_def CFRPlus_def strategy_CFR_player_commute
        strategy_CFRPlus_player_commute strategy_CFR_player_simultaneous
        strategy_CFRPlus_player_simultaneous second_player_regret_CFR
        second_player_regret_CFRPlus assms)
qed

lemma GetCurrentStrategy_mid_example:
  "GetCurrentStrategy (CFR_player started_game 0) 0 = [1, 0]"
  "GetCurrentStrategy started_game 0 = [1/2, 1/2]"
  by code_simp+

theorem CFR_updates_alternate_witness:
  "game_ok started_game \<and> (0::nat) < size_m started_game
   \<and> strategy (CFR_player (CFR_player started_game 0) 1)
       = strategy (CFR_player (CFR_player started_game 1) 0)
   \<and> strategy (CFR_player (CFR_player started_game 0) 1) = [[1/2, 1/2], [1/2, 1/2]]
   \<and> cfr (CFR_player (CFR_player started_game 0) 1) ! 0 = cfr (CFR_player started_game 0) ! 0
   \<and> GetCurrentStrategy (CFR_player started_game 0) 0 = [1, 0]
   \<and> GetCurrentStrategy started_game 0 = [1/2, 1/2]
   \<and> strategy (CFRPlus_player (CFRPlus_player started_game 0) 1)
       = strategy (CFRPlus_player (CFRPlus_player started_game 1) 0)"
proof -
  have h: "game_ok started_game" "(0::nat) < size_m started_game"
    by (simp_all add: game_ok_started_game)
      (simp add: started_game_def example_game_def MatrixGame_new_def)
  have s: "strategy (CFR_player (CFR_player started_game 0) 1) = [[1/2, 1/2], [1/2, 1/2]]"
    unfolding CFR_orders_example by simp
  from CFR_updates_alternate [OF h] h s GetCurrentStrategy_mid_example show ?thesis
    by blast
qed

section \<open>Properties of binary64 rounding\<close>

subsection \<open>Rounding to the nearest integer, ties to even\<close>

lemma round_even_cases:
  "round_even y = \<lfloor>y\<rfloor> \<or> round_even y = \<lfloor>y\<rfloor> + 1"
  by (simp add: round_even_def Let_def)

lemma round_even_of_int [simp]: "round_even (of_int k) = k"
  by (simp add: round_even_def)

lemma round_even_mono:
  assumes "x \<le> y"
  shows "round_even x \<le> round_even y"
proof (cases "\<lfloor>x\<rfloor> = \<lfloor>y\<rfloor>")
  case True
  with assms show ?thesis
    by (auto simp: round_even_def Let_def)
next
  case False
  with assms have "\<lfloor>x\<rfloor> < \<lfloor>y\<rfloor>"
    using floor_mono [of x y] by linarith
  moreover have "round_even x \<le> \<lfloor>x\<rfloor> + 1" "\<lfloor>y\<rfloor> \<le> round_even y"
    using round_even_cases [of x] round_even_cases [of y] by auto
  ultimately show ?thesis by linarith
qed

lemma round_even_ge: "of_int k \<le> y \<Longrightarrow> k \<le> round_even y"
  using round_even_mono [of "of_int k" y] by simp

lemma round_even_le: "y \<le> of_int k \<Longrightarrow> round_even y \<le> k"
  using round_even_mono [of y "of_int k"] by simp

lemma round_even_minus: "round_even (- y) = - round_even y"
proof (cases "y = of_int \<lfloor>y\<rfloor>")
  case True
  then obtain k :: int where "y = of_int k" ..
  then have "- y = of_int (- k)" by simp
  then show ?thesis
    using \<open>y = of_int k\<close> by (simp only: round_even_of_int)
next
  case False
  then have d: "0 < y - of_int \<lfloor>y\<rfloor>" "y - of_int \<lfloor>y\<rfloor> < 1"
    by linarith+
  have f: "\<lfloor>- y\<rfloor> = - \<lfloor>y\<rfloor> - 1"
    by (rule floor_unique) (use d in simp_all)
  show ?thesis
    using d by (auto simp: round_even_def Let_def f)
qed


subsection \<open>The exponent of the last place\<close>

lemma two_powi_pos [simp]: "0 < (2::real) powi e"
  by simp

lemma two_powi_mono: "a \<le> b \<Longrightarrow> (2::real) powi a \<le> 2 powi b"
  by (rule power_int_increasing) simp_all

lemma two_powi_add: "(2::real) powi (a + b) = 2 powi a * 2 powi b"
  by (rule power_int_add) simp

lemma two_powi_diff: "(2::real) powi (a - b) = 2 powi a / 2 powi b"
  by (rule power_int_diff) simp

lemma two_powr_of_int: "(2::real) powr real_of_int k = 2 powi k"
  by (simp add: powr_real_of_int')

lemma floor_log2_iff:
  "0 < x \<Longrightarrow> \<lfloor>log 2 x\<rfloor> = e \<longleftrightarrow> 2 powi e \<le> x \<and> x < 2 powi (e + 1)"
  using floor_log_eq_powr_iff [of x 2 e] unfolding two_powr_of_int by simp

lemma binade:
  assumes "0 < x"
  shows "2 powi \<lfloor>log 2 x\<rfloor> \<le> x" "x < 2 powi (\<lfloor>log 2 x\<rfloor> + 1)"
  using floor_log2_iff [OF assms, of "\<lfloor>log 2 x\<rfloor>"] by simp_all

lemma floor_log2_unique:
  assumes "0 < x" "2 powi e \<le> x" "x < 2 powi (e + 1)"
  shows "\<lfloor>log 2 x\<rfloor> = e"
  using floor_log2_iff [OF assms(1), of e] assms(2,3) by simp

lemma floor_log2_less:
  assumes "0 < x" "x < 2 powi k"
  shows "\<lfloor>log 2 x\<rfloor> < k"
proof (rule ccontr)
  assume "\<not> \<lfloor>log 2 x\<rfloor> < k"
  then have "(2::real) powi k \<le> 2 powi \<lfloor>log 2 x\<rfloor>"
    by (intro two_powi_mono) simp
  with binade(1) [OF assms(1)] assms(2) show False by simp
qed

lemma floor_log2_mono:
  assumes "0 < x" "x \<le> y"
  shows "\<lfloor>log 2 x\<rfloor> \<le> \<lfloor>log 2 y\<rfloor>"
  using assms by (intro floor_mono) simp

lemma ulp_exp_minus [simp]: "ulp_exp (- x) = ulp_exp x"
  by (simp add: ulp_exp_def)

lemma ulp_exp_ge: "- 1074 \<le> ulp_exp x"
  by (simp add: ulp_exp_def)

lemma ulp_exp_upper:
  assumes "x \<noteq> 0"
  shows "\<bar>x\<bar> < 2 powi (ulp_exp x + 53)"
proof -
  have "\<bar>x\<bar> < 2 powi (\<lfloor>log 2 \<bar>x\<bar>\<rfloor> + 1)"
    using assms by (intro binade) simp
  also have "\<dots> \<le> 2 powi (ulp_exp x + 53)"
    by (intro two_powi_mono) (simp add: ulp_exp_def)
  finally show ?thesis .
qed

lemma ulp_exp_normal:
  assumes "x \<noteq> 0" "- 1074 < ulp_exp x"
  shows "2 powi (ulp_exp x + 52) \<le> \<bar>x\<bar>"
proof -
  have "ulp_exp x + 52 = \<lfloor>log 2 \<bar>x\<bar>\<rfloor>"
    using assms(2) by (simp add: ulp_exp_def max_def split: if_splits)
  then show ?thesis
    using binade(1) [of "\<bar>x\<bar>"] assms(1) by simp
qed

lemma ulp_exp_mono:
  assumes "x \<noteq> 0" "\<bar>x\<bar> \<le> \<bar>y\<bar>"
  shows "ulp_exp x \<le> ulp_exp y"
  using floor_log2_mono [of "\<bar>x\<bar>" "\<bar>y\<bar>"] assms
  by (simp add: ulp_exp_def)

lemma ulp_exp_le:
  assumes "x \<noteq> 0" "\<bar>x\<bar> < 2 powi (k + 53)" "- 1074 \<le> k"
  shows "ulp_exp x \<le> k"
  using floor_log2_less [of "\<bar>x\<bar>" "k + 53"] assms
  by (simp add: ulp_exp_def)

subsection \<open>Rounding to a double\<close>

lemma fl_0 [simp]: "fl 0 = 0"
  by (simp add: fl_def)

lemma fl_minus: "fl (- x) = - fl x"
  by (simp add: fl_def round_even_minus)

lemma fl_nonneg:
  assumes "0 \<le> x"
  shows "0 \<le> fl x"
proof (cases "x = 0")
  case True
  then show ?thesis by simp
next
  case False
  have "of_int 0 \<le> x / 2 powi ulp_exp x"
    using assms by simp
  then have "0 \<le> round_even (x / 2 powi ulp_exp x)"
    by (rule round_even_ge)
  then show ?thesis
    using False by (simp add: fl_def)
qed

lemma fl_representable:
  assumes x: "x = of_int m * 2 powi k" and m: "\<bar>m\<bar> < 2 ^ 53" and k: "- 1074 \<le> k"
  shows "fl x = x"
proof (cases "x = 0")
  case True
  then show ?thesis by simp
next
  case False
  have "(of_int \<bar>m\<bar> :: real) < of_int (2 ^ 53)"
    using m by (simp only: of_int_less_iff)
  then have m': "(of_int \<bar>m\<bar> :: real) < 2 powi 53"
    by simp
  have "\<bar>x\<bar> = of_int \<bar>m\<bar> * 2 powi k"
    by (simp add: x abs_mult)
  also have "\<dots> < 2 powi 53 * 2 powi k"
    using m' by (rule mult_strict_right_mono) simp
  also have "\<dots> = 2 powi (k + 53)"
    by (simp only: two_powi_add mult.commute)
  finally have "ulp_exp x \<le> k"
    using False k by (intro ulp_exp_le)
  define e where "e = ulp_exp x"
  have "0 \<le> k - e" using \<open>ulp_exp x \<le> k\<close> by (simp add: e_def)
  then obtain j where "k - e = int j"
    by (rule nonneg_int_cases)
  then have j: "k = e + int j" by simp
  have p: "(2::real) powi k = 2 powi e * 2 ^ j"
    by (subst j) (simp only: two_powi_add power_int_of_nat)
  have xe: "x = of_int (m * 2 ^ j) * 2 powi e"
    unfolding x p by simp
  then have "x / 2 powi e = of_int (m * 2 ^ j)"
    by simp
  then have "round_even (x / 2 powi e) = m * 2 ^ j"
    by (simp only: round_even_of_int)
  then have "fl x = of_int (m * 2 ^ j) * 2 powi e"
    using False by (simp only: fl_def if_False e_def)
  then show ?thesis
    using xe by simp
qed

lemma fl_of_int:
  assumes "\<bar>k\<bar> \<le> 2 ^ 53"
  shows "fl (of_int k) = of_int k"
proof (cases "\<bar>k\<bar> < 2 ^ 53")
  case True
  have "real_of_int k = of_int k * 2 powi 0" by simp
  then show ?thesis
    using True by (rule fl_representable) simp
next
  case False
  with assms have "\<bar>k\<bar> = 2 ^ 53" by simp
  then have "k = 2 ^ 53 \<or> k = - (2 ^ 53)" by linarith
  then have "real_of_int k = of_int (if k < 0 then - 1 else 1) * 2 powi 53"
    by (elim disjE) (simp_all only: of_int_minus of_int_power of_int_numeral, simp_all)
  then show ?thesis
    by (rule fl_representable) simp_all
qed

lemma fl_1 [simp]: "fl 1 = 1"
  using fl_of_int [of 1] by simp

lemma fl_of_nat:
  assumes "n \<le> 2 ^ 53"
  shows "fl (real n) = real n"
proof -
  have "int n \<le> int (2 ^ 53)"
    using assms by (simp only: of_nat_le_iff)
  then have "\<bar>int n\<bar> \<le> 2 ^ 53" by simp
  from fl_of_int [OF this] show ?thesis by simp
qed


lemma round_scaled_bound:
  assumes "x \<noteq> 0"
  shows "\<bar>round_even (x / 2 powi ulp_exp x)\<bar> \<le> 2 ^ 53"
proof -
  have "\<bar>x\<bar> / 2 powi ulp_exp x < 2 powi (ulp_exp x + 53) / 2 powi ulp_exp x"
    using ulp_exp_upper [OF assms] by (intro divide_strict_right_mono) simp_all
  also have "\<dots> = 2 ^ 53"
    by (simp add: two_powi_add)
  finally have b: "\<bar>x\<bar> / 2 powi ulp_exp x < 2 ^ 53" .
  have "x / 2 powi ulp_exp x \<le> \<bar>x\<bar> / 2 powi ulp_exp x"
    by (simp add: divide_right_mono)
  moreover have "(- \<bar>x\<bar>) / 2 powi ulp_exp x \<le> x / 2 powi ulp_exp x"
    by (intro divide_right_mono) simp_all
  then have "- (\<bar>x\<bar> / 2 powi ulp_exp x) \<le> x / 2 powi ulp_exp x"
    by simp
  ultimately have "x / 2 powi ulp_exp x \<le> \<bar>x\<bar> / 2 powi ulp_exp x"
    "- (\<bar>x\<bar> / 2 powi ulp_exp x) \<le> x / 2 powi ulp_exp x"
    by blast+
  with b have up: "x / 2 powi ulp_exp x \<le> of_int (2 ^ 53)"
    and lo: "of_int (- (2 ^ 53)) \<le> x / 2 powi ulp_exp x"
    by simp_all
  from up have "round_even (x / 2 powi ulp_exp x) \<le> 2 ^ 53"
    by (rule round_even_le)
  moreover from lo have "- (2 ^ 53) \<le> round_even (x / 2 powi ulp_exp x)"
    by (rule round_even_ge)
  ultimately show ?thesis by linarith
qed

lemma fl_idem [simp]: "fl (fl x) = fl x"
proof (cases "x = 0")
  case True
  then show ?thesis by simp
next
  case False
  define e where "e = ulp_exp x"
  define M where "M = round_even (x / 2 powi e)"
  have flx: "fl x = of_int M * 2 powi e"
    using False by (simp add: fl_def e_def M_def)
  have e: "- 1074 \<le> e"
    by (simp add: e_def ulp_exp_ge)
  have M: "\<bar>M\<bar> \<le> 2 ^ 53"
    unfolding M_def e_def using False by (rule round_scaled_bound)
  show ?thesis
  proof (cases "\<bar>M\<bar> < 2 ^ 53")
    case True
    from flx True e show ?thesis
      by (rule fl_representable)
  next
    case big: False
    with M have "\<bar>M\<bar> = 2 ^ 53" by simp
    then have "M = 2 ^ 53 \<or> M = - (2 ^ 53)" by linarith
    then have "real_of_int M = of_int (if M < 0 then - 1 else 1) * 2 powi 53"
      by (elim disjE) (simp_all only: of_int_minus of_int_power of_int_numeral, simp_all)
    then have "fl x = of_int (if M < 0 then - 1 else 1) * 2 powi (e + 53)"
      unfolding flx by (simp add: two_powi_add mult.commute)
    moreover have "\<bar>if M < 0 then - 1 else 1 :: int\<bar> < 2 ^ 53" "- 1074 \<le> e + 53"
      using e by simp_all
    ultimately show ?thesis
      by (rule fl_representable)
  qed
qed

lemma is_double_fl [simp]: "is_double (fl x)"
  by (simp add: is_double_def)

lemma is_double_0 [simp]: "is_double 0"
  by (simp add: is_double_def)

lemma is_double_1 [simp]: "is_double 1"
  by (simp add: is_double_def)

lemma is_double_minus [simp]: "is_double (- x) = is_double x"
  by (auto simp: is_double_def fl_minus)

lemma is_double_max: "is_double x \<Longrightarrow> is_double y \<Longrightarrow> is_double (max x y)"
  by (simp add: max_def)

lemma is_double_of_nat: "n \<le> 2 ^ 53 \<Longrightarrow> is_double (real n)"
  by (simp add: is_double_def fl_of_nat)

text \<open>Rounding keeps the order.\<close>

lemma fl_mono_pos:
  assumes "0 < x" "x \<le> y"
  shows "fl x \<le> fl y"
proof -
  have y: "0 < y" using assms by simp
  have ee: "ulp_exp x \<le> ulp_exp y"
    using assms by (intro ulp_exp_mono) simp_all
  show ?thesis
  proof (cases "ulp_exp x = ulp_exp y")
    case True
    have "x / 2 powi ulp_exp y \<le> y / 2 powi ulp_exp y"
      using assms by (intro divide_right_mono) simp_all
    then have "round_even (x / 2 powi ulp_exp y) \<le> round_even (y / 2 powi ulp_exp y)"
      by (rule round_even_mono)
    then have "real_of_int (round_even (x / 2 powi ulp_exp y)) * 2 powi ulp_exp y
        \<le> real_of_int (round_even (y / 2 powi ulp_exp y)) * 2 powi ulp_exp y"
      by (intro mult_right_mono) simp_all
    then show ?thesis
      using assms y True by (simp add: fl_def)
  next
    case False
    with ee have lt: "ulp_exp x + 1 \<le> ulp_exp y" by simp
    then have norm: "- 1074 < ulp_exp y"
      using ulp_exp_ge [of x] by simp
    have "x / 2 powi ulp_exp x \<le> of_int (2 ^ 53)"
    proof -
      have "x / 2 powi ulp_exp x \<le> 2 powi (ulp_exp x + 53) / 2 powi ulp_exp x"
        using ulp_exp_upper [of x] assms by (intro divide_right_mono) simp_all
      then show ?thesis by (simp add: two_powi_add)
    qed
    then have "round_even (x / 2 powi ulp_exp x) \<le> 2 ^ 53"
      by (rule round_even_le)
    then have "real_of_int (round_even (x / 2 powi ulp_exp x)) \<le> of_int (2 ^ 53)"
      by (simp only: of_int_le_iff)
    then have "fl x \<le> 2 ^ 53 * 2 powi ulp_exp x"
      using assms by (simp add: fl_def mult_right_mono)
    also have "\<dots> = 2 powi (ulp_exp x + 1 + 52)"
      by (simp add: two_powi_add)
    also have "\<dots> \<le> 2 powi (ulp_exp y + 52)"
      using lt by (intro two_powi_mono) simp
    also have "\<dots> \<le> fl y"
    proof -
      have "2 powi (ulp_exp y + 52) / 2 powi ulp_exp y \<le> y / 2 powi ulp_exp y"
        using ulp_exp_normal [of y] y norm by (intro divide_right_mono) simp_all
      then have "of_int (2 ^ 52) \<le> y / 2 powi ulp_exp y"
        by (simp add: two_powi_add)
      then have "2 ^ 52 \<le> round_even (y / 2 powi ulp_exp y)"
        by (rule round_even_ge)
      then have "of_int (2 ^ 52) \<le> real_of_int (round_even (y / 2 powi ulp_exp y))"
        by (simp only: of_int_le_iff)
      then have "2 ^ 52 * 2 powi ulp_exp y \<le> fl y"
        using y by (simp add: fl_def mult_right_mono)
      then show ?thesis by (simp add: two_powi_add mult.commute)
    qed
    finally show ?thesis .
  qed
qed

lemma fl_mono:
  assumes "x \<le> y"
  shows "fl x \<le> fl y"
proof -
  consider "0 < x" | "x \<le> 0" "0 \<le> y" | "y < 0" by linarith
  then show ?thesis
  proof cases
    case 1
    then show ?thesis using assms by (rule fl_mono_pos)
  next
    case 2
    have "fl x \<le> 0"
      using fl_nonneg [of "- x"] 2(1) by (simp add: fl_minus)
    also have "0 \<le> fl y"
      using 2(2) by (rule fl_nonneg)
    finally show ?thesis .
  next
    case 3
    have "fl (- y) \<le> fl (- x)"
      using 3 assms by (intro fl_mono_pos) simp_all
    then show ?thesis by (simp add: fl_minus)
  qed
qed

lemma fl_le: "x \<le> c \<Longrightarrow> is_double c \<Longrightarrow> fl x \<le> c"
  using fl_mono [of x c] by (simp add: is_double_def)

lemma fl_ge: "c \<le> x \<Longrightarrow> is_double c \<Longrightarrow> c \<le> fl x"
  using fl_mono [of c x] by (simp add: is_double_def)


subsection \<open>Computing the exponent\<close>

lemma bitlen_bounds:
  assumes "1 \<le> n"
  shows "0 < bitlen n" "2 powi (bitlen n - 1) \<le> real_of_int n" "real_of_int n < 2 powi bitlen n"
proof -
  have n: "0 < real_of_int n" using assms by simp
  have b: "bitlen n = \<lfloor>log 2 (real_of_int n)\<rfloor> + 1"
    using assms by (simp add: bitlen_alt_def)
  have "0 \<le> log 2 (real_of_int n)"
    using assms by simp
  then show "0 < bitlen n"
    unfolding b by simp
  show "2 powi (bitlen n - 1) \<le> real_of_int n" "real_of_int n < 2 powi bitlen n"
    using binade [OF n] by (simp_all add: b)
qed

lemma floor_log2_ilog2:
  assumes "0 < x"
  shows "\<lfloor>log 2 x\<rfloor> = ilog2 x"
proof (cases "1 \<le> x")
  case True
  define n where "n = \<lfloor>x\<rfloor>"
  have n: "1 \<le> n" "of_int n \<le> x" "x < of_int n + 1"
    using True by (simp_all add: n_def le_floor_iff)
  note b = bitlen_bounds [OF n(1)]
  obtain j where j: "bitlen n = int j"
    using b(1) by (metis nonneg_int_cases less_imp_le)
  have "real_of_int n < of_int (2 ^ j)"
    using b(3) by (simp add: j)
  then have "n < 2 ^ j" by (simp only: of_int_less_iff)
  then have "n + 1 \<le> 2 ^ j" by simp
  then have "real_of_int (n + 1) \<le> of_int (2 ^ j)" by (simp only: of_int_le_iff)
  then have "real_of_int n + 1 \<le> 2 powi bitlen n"
    by (simp add: j)
  with n(3) have "x < 2 powi bitlen n"
    by (rule less_le_trans)
  moreover have "2 powi (bitlen n - 1) \<le> x"
    using b(2) n(2) by simp
  ultimately have "\<lfloor>log 2 x\<rfloor> = bitlen n - 1"
    using assms by (intro floor_log2_unique) simp_all
  then show ?thesis
    using True by (simp add: ilog2_def n_def)
next
  case False
  define c where "c = \<lceil>1 / x\<rceil>"
  have y: "1 < 1 / x" using False assms by simp
  have c: "of_int c - 1 < 1 / x" "1 / x \<le> of_int c"
    by (simp_all add: c_def) linarith
  have "1 < real_of_int c" using y c(2) by simp
  then have c1: "1 \<le> c - 1" by simp
  note b = bitlen_bounds [OF c1]
  obtain j where j: "bitlen (c - 1) = int j"
    using b(1) by (metis nonneg_int_cases less_imp_le)
  have "real_of_int (c - 1) < of_int (2 ^ j)"
    using b(3) by (simp add: j)
  then have "c - 1 < 2 ^ j" by (simp only: of_int_less_iff)
  then have "c \<le> 2 ^ j" by simp
  then have "real_of_int c \<le> of_int (2 ^ j)" by (simp only: of_int_le_iff)
  then have "real_of_int c \<le> 2 powi bitlen (c - 1)"
    by (simp add: j)
  with c(2) have up: "1 / x \<le> 2 powi bitlen (c - 1)"
    by (rule order_trans)
  have lo: "2 powi (bitlen (c - 1) - 1) < 1 / x"
    using b(2) c(1) by simp
  have "1 \<le> x * 2 powi bitlen (c - 1)"
    using up assms by (simp add: field_simps)
  then have "2 powi (- bitlen (c - 1)) \<le> x"
    by (simp add: power_int_minus field_simps)
  moreover have "x * 2 powi (bitlen (c - 1) - 1) < 1"
    using lo assms by (simp add: field_simps)
  then have "x < 2 powi (- (bitlen (c - 1) - 1))"
    by (simp only: power_int_minus) (simp add: field_simps)
  then have "x < 2 powi (- bitlen (c - 1) + 1)"
    by simp
  ultimately have "\<lfloor>log 2 x\<rfloor> = - bitlen (c - 1)"
    using assms by (intro floor_log2_unique)
  then show ?thesis
    using False by (simp add: ilog2_def c_def)
qed

lemma fl_code [code]:
  "fl x = (if x = 0 then 0
           else let e = max (ilog2 \<bar>x\<bar> - 52) (- 1074)
                in of_int (round_even (x / 2 powi e)) * 2 powi e)"
  by (simp add: fl_def ulp_exp_def floor_log2_ilog2 Let_def)

section \<open>Sums accumulated with rounding\<close>

lemma dadd_nonneg: "0 \<le> x \<Longrightarrow> 0 \<le> y \<Longrightarrow> 0 \<le> dadd x y"
  by (simp add: dadd_def fl_nonneg)

lemma is_double_dadd [simp]: "is_double (dadd x y)"
  by (simp add: dadd_def)

lemma is_double_dsub [simp]: "is_double (dsub x y)"
  by (simp add: dsub_def)

lemma is_double_dmul [simp]: "is_double (dmul x y)"
  by (simp add: dmul_def)

lemma is_double_ddiv [simp]: "is_double (ddiv x y)"
  by (simp add: ddiv_def)

lemma dadd_ge_left: "is_double s \<Longrightarrow> 0 \<le> x \<Longrightarrow> s \<le> dadd s x"
  unfolding dadd_def by (rule fl_ge) simp_all

lemma dadd_ge_right: "is_double x \<Longrightarrow> 0 \<le> s \<Longrightarrow> x \<le> dadd s x"
  unfolding dadd_def by (rule fl_ge) simp_all

lemma rloop_double:
  "is_double a \<Longrightarrow> is_double (fold (\<lambda>i s. dadd s (f i)) [0..<n] a)"
  by (induction n) simp_all

lemma rloop_ge_init:
  assumes "is_double a" "\<And>i. i < n \<Longrightarrow> 0 \<le> f i"
  shows "a \<le> fold (\<lambda>i s. dadd s (f i)) [0..<n] a"
  using assms(2)
proof (induction n)
  case 0
  show ?case by simp
next
  case (Suc n)
  have "a \<le> fold (\<lambda>i s. dadd s (f i)) [0..<n] a"
    using Suc by simp
  also have "\<dots> \<le> dadd (fold (\<lambda>i s. dadd s (f i)) [0..<n] a) (f n)"
    using Suc.prems assms(1) by (intro dadd_ge_left rloop_double) simp_all
  finally show ?case by simp
qed

lemma rloop_ge_term:
  assumes "is_double a" "0 \<le> a" "\<And>i. i < n \<Longrightarrow> 0 \<le> f i \<and> is_double (f i)" "i < n"
  shows "f i \<le> fold (\<lambda>i s. dadd s (f i)) [0..<n] a"
  using assms(3,4)
proof (induction n)
  case 0
  then show ?case by simp
next
  case (Suc n)
  let ?s = "fold (\<lambda>i s. dadd s (f i)) [0..<n] a"
  have s: "is_double ?s" "0 \<le> ?s"
    using rloop_ge_init [of a n f] assms(1,2) Suc.prems(1) by (simp_all add: rloop_double)
  show ?case
  proof (cases "i = n")
    case True
    then show ?thesis
      using s Suc.prems(1) by (simp add: dadd_ge_right)
  next
    case False
    with Suc have "f i \<le> ?s" by simp
    also have "?s \<le> dadd ?s (f n)"
      using s Suc.prems(1) by (intro dadd_ge_left) simp_all
    finally show ?thesis by simp
  qed
qed

lemma rloop_zero:
  assumes "\<And>i. i < n \<Longrightarrow> f i = 0"
  shows "fold (\<lambda>i s. dadd s (f i)) [0..<n] 0 = 0"
  using assms by (induction n) (simp_all add: dadd_def)

lemma rloop_pos_iff:
  assumes "\<And>i. i < n \<Longrightarrow> 0 \<le> f i \<and> is_double (f i)"
  shows "0 < fold (\<lambda>i s. dadd s (f i)) [0..<n] 0 \<longleftrightarrow> (\<exists>i<n. 0 < f i)"
proof
  assume pos: "0 < fold (\<lambda>i s. dadd s (f i)) [0..<n] 0"
  show "\<exists>i<n. 0 < f i"
  proof (rule ccontr)
    assume "\<not> (\<exists>i<n. 0 < f i)"
    with assms have "\<And>i. i < n \<Longrightarrow> f i = 0"
      by (metis less_eq_real_def)
    then have "fold (\<lambda>i s. dadd s (f i)) [0..<n] 0 = 0"
      by (rule rloop_zero)
    with pos show False by simp
  qed
next
  assume "\<exists>i<n. 0 < f i"
  then obtain i where i: "i < n" "0 < f i" by blast
  have "f i \<le> fold (\<lambda>i s. dadd s (f i)) [0..<n] 0"
    using assms i(1) by (intro rloop_ge_term) simp_all
  with i(2) show "0 < fold (\<lambda>i s. dadd s (f i)) [0..<n] 0" by simp
qed

lemma fl_abs_le:
  assumes "\<bar>x\<bar> \<le> c" "is_double c"
  shows "\<bar>fl x\<bar> \<le> c"
proof -
  have "fl x \<le> c"
    using assms by (intro fl_le) simp_all
  moreover have "- c \<le> fl x"
    using assms by (intro fl_ge) simp_all
  ultimately show ?thesis by simp
qed

lemma rloop_abs_bound:
  assumes "\<And>i. i < n \<Longrightarrow> \<bar>f i\<bar> \<le> 1" "n \<le> 2 ^ 53"
  shows "\<bar>fold (\<lambda>i s. dadd s (f i)) [0..<n] 0\<bar> \<le> real n"
  using assms
proof (induction n)
  case 0
  show ?case by simp
next
  case (Suc n)
  have "\<bar>fold (\<lambda>i s. dadd s (f i)) [0..<n] 0\<bar> \<le> real n"
    using Suc by simp
  moreover have "\<bar>f n\<bar> \<le> 1"
    using Suc.prems by simp
  ultimately have "\<bar>fold (\<lambda>i s. dadd s (f i)) [0..<n] 0 + f n\<bar> \<le> real (Suc n)"
    by simp
  then have "\<bar>fl (fold (\<lambda>i s. dadd s (f i)) [0..<n] 0 + f n)\<bar> \<le> real (Suc n)"
    using Suc.prems(2) by (intro fl_abs_le is_double_of_nat)
  then show ?case by (simp add: dadd_def)
qed

lemma fold_nth:
  "fold (\<lambda>i s. h (xs ! i) s) [0..<length xs] a = fold h xs a"
proof (induction xs rule: rev_induct)
  case Nil
  show ?case by simp
next
  case (snoc x xs)
  have "fold (\<lambda>i s. h ((xs @ [x]) ! i) s) [0..<length xs] a
      = fold (\<lambda>i s. h (xs ! i) s) [0..<length xs] a"
    by (rule fold_cong) (simp_all add: nth_append)
  with snoc show ?case by simp
qed

lemma rounded_sum_loop:
  "length xs = n \<Longrightarrow> fold (\<lambda>i s. dadd s (h (xs ! i))) [0..<n] 0 = rounded_sum (map h xs)"
  using fold_nth [of "\<lambda>x s. dadd s (h x)" xs 0]
  by (simp add: rounded_sum_def fold_map comp_def)

section \<open>Strategies in binary64 arithmetic\<close>

lemma game_ok_d_iff:
  "game_ok_d g \<longleftrightarrow>
     game_ok g \<and> size_m g < 2 ^ 31 \<and>
     (\<forall>i<size_m g * size_m g. is_double (payoffs g ! i)) \<and>
     (\<forall>p<2. \<forall>a<size_m g. is_double (strategy g ! p ! a)) \<and>
     (\<forall>p<2. \<forall>a<size_m g. is_double (cfr g ! p ! a))"
  by (auto simp: game_ok_d_def game_ok_iff list_all_nth)

lemma game_ok_d_game_ok: "game_ok_d g \<Longrightarrow> game_ok g"
  by (simp add: game_ok_d_def)

lemma size_bound: "game_ok_d g \<Longrightarrow> size_m g \<le> 2 ^ 53"
proof -
  assume "game_ok_d g"
  then have "size_m g < 2 ^ 31" by (simp add: game_ok_d_def)
  also have "(2::nat) ^ 31 \<le> 2 ^ 53" by simp
  finally show ?thesis by simp
qed

lemma length_GetNormalizedStrategy_d [simp]:
  "length (GetNormalizedStrategy_d g p) = size_m g"
  by (simp add: GetNormalizedStrategy_d_def Let_def)

lemma length_GetCurrentStrategy_d [simp]:
  "length (GetCurrentStrategy_d g p) = size_m g"
  by (simp add: GetCurrentStrategy_d_def Let_def)

lemma ddiv_unit_interval:
  assumes "0 \<le> x" "x \<le> y" "0 < y"
  shows "0 \<le> ddiv x y" "ddiv x y \<le> 1"
proof -
  have "0 \<le> x / y" "x / y \<le> 1"
    using assms by simp_all
  then show "0 \<le> ddiv x y" "ddiv x y \<le> 1"
    unfolding ddiv_def by (simp_all add: fl_nonneg fl_le)
qed

lemma uniform_unit_interval:
  assumes "0 < n"
  shows "0 \<le> ddiv 1 (real n)" "ddiv 1 (real n) \<le> 1"
  using assms by (intro ddiv_unit_interval; simp)+

lemma GetNormalizedStrategy_d_nth:
  "i < size_m g \<Longrightarrow> GetNormalizedStrategy_d g p ! i =
     (if fold (\<lambda>i s. dadd s (strategy g ! p ! i)) [0..<size_m g] 0 > 0
      then ddiv (strategy g ! p ! i) (fold (\<lambda>i s. dadd s (strategy g ! p ! i)) [0..<size_m g] 0)
      else ddiv 1 (real (size_m g)))"
  by (simp add: GetNormalizedStrategy_d_def Let_def)

lemma GetCurrentStrategy_d_nth:
  "i < size_m g \<Longrightarrow> GetCurrentStrategy_d g p ! i =
     (if fold (\<lambda>i s. dadd s (max 0 (cfr g ! p ! i))) [0..<size_m g] 0 > 0
      then (if cfr g ! p ! i > 0
            then ddiv (cfr g ! p ! i)
                   (fold (\<lambda>i s. dadd s (max 0 (cfr g ! p ! i))) [0..<size_m g] 0)
            else 0)
      else ddiv 1 (real (size_m g)))"
  by (simp add: GetCurrentStrategy_d_def Let_def)

lemma GetNormalizedStrategy_d_bounds:
  assumes ok: "game_ok_d g" and p: "p < 2" and i: "i < size_m g"
  shows "0 \<le> GetNormalizedStrategy_d g p ! i" "GetNormalizedStrategy_d g p ! i \<le> 1"
proof -
  let ?s = "fold (\<lambda>i s. dadd s (strategy g ! p ! i)) [0..<size_m g] 0"
  have f: "\<And>j. j < size_m g \<Longrightarrow> 0 \<le> strategy g ! p ! j \<and> is_double (strategy g ! p ! j)"
    using ok p by (simp add: game_ok_d_iff game_ok_iff)
  have le: "strategy g ! p ! i \<le> ?s"
    using f i by (intro rloop_ge_term) simp_all
  have n: "0 < size_m g" using i by simp
  show "0 \<le> GetNormalizedStrategy_d g p ! i" "GetNormalizedStrategy_d g p ! i \<le> 1"
    using f [OF i] le i uniform_unit_interval [OF n]
    by (simp_all add: GetNormalizedStrategy_d_nth ddiv_unit_interval)
qed

lemma GetCurrentStrategy_d_nonneg:
  assumes "i < size_m g"
  shows "0 \<le> GetCurrentStrategy_d g p ! i"
proof -
  have "0 \<le> x / y" if "0 < x" "0 < y" for x y :: real
    using that by simp
  then have "0 \<le> ddiv x y" if "0 < x" "0 < y" for x y
    using that by (simp add: ddiv_def fl_nonneg)
  moreover have "0 \<le> ddiv 1 (real (size_m g))"
    using assms by (intro uniform_unit_interval) simp
  ultimately show ?thesis
    using assms by (simp add: GetCurrentStrategy_d_nth)
qed

lemma GetCurrentStrategy_d_le_1:
  assumes len: "\<And>j. j < size_m g \<Longrightarrow> is_double (cfr g ! p ! j)" and i: "i < size_m g"
  shows "GetCurrentStrategy_d g p ! i \<le> 1"
proof -
  let ?s = "fold (\<lambda>i s. dadd s (max 0 (cfr g ! p ! i))) [0..<size_m g] 0"
  have f: "\<And>j. j < size_m g \<Longrightarrow> 0 \<le> max 0 (cfr g ! p ! j) \<and> is_double (max 0 (cfr g ! p ! j))"
    using len by (simp add: is_double_max)
  have "max 0 (cfr g ! p ! i) \<le> ?s"
    using f i by (intro rloop_ge_term) simp_all
  then have le: "cfr g ! p ! i \<le> ?s" by simp
  have n: "0 < size_m g" using i by simp
  show ?thesis
    using le i uniform_unit_interval [OF n]
    by (simp add: GetCurrentStrategy_d_nth ddiv_unit_interval)
qed

lemma is_double_GetCurrentStrategy_d:
  "i < size_m g \<Longrightarrow> is_double (GetCurrentStrategy_d g p ! i)"
  by (simp add: GetCurrentStrategy_d_nth)

lemma is_double_GetNormalizedStrategy_d:
  "i < size_m g \<Longrightarrow> is_double (GetNormalizedStrategy_d g p ! i)"
  by (simp add: GetNormalizedStrategy_d_nth)

text \<open>The code's loops against the specification's words, with rounding.\<close>

lemma sum_list_nonneg_eq_0_iff:
  fixes xs :: "real list"
  assumes "\<And>x. x \<in> set xs \<Longrightarrow> 0 \<le> x"
  shows "sum_list xs = 0 \<longleftrightarrow> (\<forall>x\<in>set xs. x = 0)"
  using assms by (simp add: sum_list_nonneg_eq_0_iff)

lemma rounded_sum_pos_iff:
  assumes "\<And>x. x \<in> set xs \<Longrightarrow> 0 \<le> x \<and> is_double x"
  shows "0 < rounded_sum xs \<longleftrightarrow> sum_list xs \<noteq> 0"
proof -
  have "rounded_sum xs = fold (\<lambda>i s. dadd s (xs ! i)) [0..<length xs] 0"
    using rounded_sum_loop [of xs "length xs" "\<lambda>x. x"] by simp
  moreover have "0 < fold (\<lambda>i s. dadd s (xs ! i)) [0..<length xs] 0 \<longleftrightarrow> (\<exists>i<length xs. 0 < xs ! i)"
    using assms by (intro rloop_pos_iff) simp
  moreover have "(\<exists>i<length xs. 0 < xs ! i) \<longleftrightarrow> \<not> (\<forall>x\<in>set xs. x = 0)"
    using assms by (metis in_set_conv_nth less_eq_real_def less_irrefl)
  moreover have "sum_list xs = 0 \<longleftrightarrow> (\<forall>x\<in>set xs. x = 0)"
    using assms by (intro sum_list_nonneg_eq_0_iff) simp
  ultimately show ?thesis by simp
qed

lemma GetNormalizedStrategy_d_average_eq:
  assumes ok: "game_ok_d g" and p: "p < 2"
  shows "GetNormalizedStrategy_d g p = average_strategy_d (strategy g ! p)"
proof -
  let ?s = "strategy g ! p"
  have len: "length ?s = size_m g"
    using ok p by (simp add: game_ok_d_iff game_ok_iff)
  have el: "\<And>x. x \<in> set ?s \<Longrightarrow> 0 \<le> x \<and> is_double x"
    using ok p len by (auto simp: game_ok_d_iff game_ok_iff in_set_conv_nth)
  have loop: "fold (\<lambda>i s. dadd s (?s ! i)) [0..<size_m g] 0 = rounded_sum ?s"
    using rounded_sum_loop [OF len, of "\<lambda>x. x"] by simp
  have pos: "0 < rounded_sum ?s \<longleftrightarrow> sum_list ?s \<noteq> 0"
    using el by (rule rounded_sum_pos_iff)
  have m: "map (\<lambda>i. ddiv (?s ! i) (rounded_sum ?s)) [0..<size_m g]
      = map (\<lambda>x. ddiv x (rounded_sum ?s)) ?s"
    using map_nth_fun [of "\<lambda>x. ddiv x (rounded_sum ?s)" ?s] len by simp
  show ?thesis
    using len
    by (simp add: GetNormalizedStrategy_d_def average_strategy_d_def Let_def loop pos m
        map_replicate_const)
qed

lemma GetCurrentStrategy_d_regret_matching_eq:
  assumes len: "length (cfr g ! p) = size_m g"
    and dbl: "list_all is_double (cfr g ! p)"
  shows "GetCurrentStrategy_d g p = regret_matching_d (cfr g ! p)"
proof -
  let ?r = "cfr g ! p"
  let ?w = "map (max 0) ?r"
  have el: "\<And>x. x \<in> set ?w \<Longrightarrow> 0 \<le> x \<and> is_double x"
    using dbl by (auto simp: list_all_iff is_double_max)
  have loop: "fold (\<lambda>i s. dadd s (max 0 (?r ! i))) [0..<size_m g] 0 = rounded_sum ?w"
    using len by (rule rounded_sum_loop)
  have pos: "0 < rounded_sum ?w \<longleftrightarrow> sum_list ?w \<noteq> 0"
    using el by (rule rounded_sum_pos_iff)
  have z: "ddiv 0 y = 0" for y
    by (simp add: ddiv_def)
  have "map (\<lambda>i. if ?r ! i > 0 then ddiv (?r ! i) (rounded_sum ?w) else 0) [0..<size_m g]
      = map (\<lambda>i. (\<lambda>x. ddiv (max 0 x) (rounded_sum ?w)) (?r ! i)) [0..<length ?r]"
    using len by (simp add: max_def z)
  also have "\<dots> = map (\<lambda>x. ddiv (max 0 x) (rounded_sum ?w)) ?r"
    by (rule map_nth_fun)
  finally have m: "map (\<lambda>i. if ?r ! i > 0 then ddiv (?r ! i) (rounded_sum ?w) else 0)
      [0..<size_m g] = map (\<lambda>x. ddiv x (rounded_sum ?w)) ?w"
    by (simp add: comp_def)
  show ?thesis
    using len
    by (simp add: GetCurrentStrategy_d_def regret_matching_d_def Let_def loop pos m
        map_replicate_const)
qed

section \<open>Action values, best response and Fictitious Play in binary64 arithmetic\<close>

lemma GetPayoff_abs_le_1:
  assumes "game_ok g" "a < size_m g" "b < size_m g"
  shows "\<bar>GetPayoff g p a b\<bar> \<le> 1"
proof -
  have "draw_ok (payoffs g ! (a * size_m g + b))" "draw_ok (payoffs g ! (b * size_m g + a))"
    using assms by (simp_all add: game_ok_iff payoff_index)
  then show ?thesis
    by (auto simp: GetPayoff_def draw_ok_def abs_le_iff)
qed

lemma dmul_abs_le_1:
  assumes "0 \<le> x" "x \<le> 1" "\<bar>y\<bar> \<le> 1"
  shows "\<bar>dmul x y\<bar> \<le> 1"
proof -
  have "\<bar>x * y\<bar> \<le> 1 * 1"
    unfolding abs_mult using assms by (intro mult_mono) simp_all
  then show ?thesis
    unfolding dmul_def by (intro fl_abs_le) simp_all
qed

lemma action_value_d_bound:
  assumes ok: "game_ok_d g" and a: "a < size_m g"
    and ns: "\<And>b. b < size_m g \<Longrightarrow> 0 \<le> ns ! b \<and> ns ! b \<le> 1"
  shows "\<bar>action_value_d g p ns a\<bar> \<le> real (size_m g)"
  unfolding action_value_d_def
proof (rule rloop_abs_bound)
  show "size_m g \<le> 2 ^ 53" using ok by (rule size_bound)
next
  fix b assume "b < size_m g"
  then show "\<bar>dmul (ns ! b) (GetPayoff g p a b)\<bar> \<le> 1"
    using ns GetPayoff_abs_le_1 [OF game_ok_d_game_ok [OF ok] a]
    by (intro dmul_abs_le_1) simp_all
qed

lemma size_less_DBL_MAX:
  assumes "game_ok_d g"
  shows "real (size_m g) < DBL_MAX"
proof -
  have "size_m g < 2 ^ 31" using assms by (simp add: game_ok_d_def)
  then have "real (size_m g) < real (2 ^ 31)" by (simp only: of_nat_less_iff)
  also have "\<dots> < DBL_MAX" by (simp add: DBL_MAX_def)
  finally show ?thesis .
qed

lemma action_value_d_gt:
  assumes ok: "game_ok_d g" and p: "p < 2" and a: "a < size_m g"
  shows "- DBL_MAX < action_value_d g p (GetNormalizedStrategy_d g (p XOR 1)) a"
proof -
  have "\<bar>action_value_d g p (GetNormalizedStrategy_d g (p XOR 1)) a\<bar> \<le> real (size_m g)"
    using ok a GetNormalizedStrategy_d_bounds [OF ok xor_one_less [OF p]]
    by (intro action_value_d_bound) simp_all
  with size_less_DBL_MAX [OF ok] show ?thesis by linarith
qed

lemma BestResponse_d_eq_Max:
  assumes ok: "game_ok_d g" and p: "p < 2"
  shows "BestResponse_d g p
    = Max (action_value_d g p (GetNormalizedStrategy_d g (p XOR 1)) ` {..<size_m g})"
proof -
  let ?f = "action_value_d g p (GetNormalizedStrategy_d g (p XOR 1))"
  have n: "0 < size_m g" using ok by (simp add: game_ok_d_def game_ok_iff)
  have ne: "?f ` {..<size_m g} \<noteq> {}" using n by auto
  have "BestResponse_d g p = Max (insert (- DBL_MAX) (?f ` {..<size_m g}))"
    unfolding BestResponse_d_def Let_def fold_max [unfolded Let_def] ..
  also have "\<dots> = max (- DBL_MAX) (Max (?f ` {..<size_m g}))"
    using ne by (intro Max_insert) simp_all
  also have "\<dots> = Max (?f ` {..<size_m g})"
  proof -
    have "?f 0 \<le> Max (?f ` {..<size_m g})"
      using n by (intro Max_ge) simp_all
    with action_value_d_gt [OF ok p n] show ?thesis by (simp add: max_def)
  qed
  finally show ?thesis .
qed

lemma FictitiousPlay_d_loop:
  assumes ok: "game_ok_d g" and p: "p < 2"
  obtains k where
    "k < size_m g"
    "fold (\<lambda>a (maxSum, bestAction).
             let sum = action_value_d g p (GetNormalizedStrategy_d g (p XOR 1)) a
             in if sum > maxSum then (sum, int a) else (maxSum, bestAction))
       [0..<size_m g] (- DBL_MAX, - 1)
     = (action_value_d g p (GetNormalizedStrategy_d g (p XOR 1)) k, int k)"
    "\<forall>a<size_m g. action_value_d g p (GetNormalizedStrategy_d g (p XOR 1)) a
        \<le> action_value_d g p (GetNormalizedStrategy_d g (p XOR 1)) k"
    "\<forall>a<k. action_value_d g p (GetNormalizedStrategy_d g (p XOR 1)) a
        < action_value_d g p (GetNormalizedStrategy_d g (p XOR 1)) k"
proof -
  let ?f = "action_value_d g p (GetNormalizedStrategy_d g (p XOR 1))"
  have n: "0 < size_m g"
    using ok by (simp add: game_ok_d_def game_ok_iff)
  obtain m k where fold:
    "fold (\<lambda>a (maxSum, bestAction).
             let sum = ?f a
             in if sum > maxSum then (sum, int a) else (maxSum, bestAction))
       [0..<size_m g] (- DBL_MAX, - 1) = (m, k)"
    by (cases "fold (\<lambda>a (maxSum, bestAction).
             let sum = ?f a
             in if sum > maxSum then (sum, int a) else (maxSum, bestAction))
       [0..<size_m g] (- DBL_MAX, - 1)") blast
  from fold_max_pair [OF fold]
  have "(\<forall>a<size_m g. ?f a \<le> - DBL_MAX) \<or>
        (0 \<le> k \<and> nat k < size_m g \<and> m = ?f (nat k) \<and>
          (\<forall>a<size_m g. ?f a \<le> m) \<and> (\<forall>a<nat k. ?f a < m))"
    by blast
  moreover have "\<not> (\<forall>a<size_m g. ?f a \<le> - DBL_MAX)"
  proof
    assume "\<forall>a<size_m g. ?f a \<le> - DBL_MAX"
    with n have "?f 0 \<le> - DBL_MAX" by blast
    with action_value_d_gt [OF ok p n] show False by simp
  qed
  ultimately have k: "0 \<le> k" "nat k < size_m g" "m = ?f (nat k)"
    "\<forall>a<size_m g. ?f a \<le> ?f (nat k)" "\<forall>a<nat k. ?f a < ?f (nat k)"
    by blast+
  from k(1) have ik: "int (nat k) = k" by simp
  show thesis
  proof (rule that [of "nat k"])
    show "nat k < size_m g" by (rule k)
    show "fold (\<lambda>a (maxSum, bestAction).
             let sum = ?f a
             in if sum > maxSum then (sum, int a) else (maxSum, bestAction))
       [0..<size_m g] (- DBL_MAX, - 1) = (?f (nat k), int (nat k))"
      unfolding ik fold k(3) ..
  qed (use k in blast)+
qed

lemma FictitiousPlay_player_d_result:
  assumes ok: "game_ok_d g" and p: "p < 2"
  obtains k where
    "k < size_m g"
    "FictitiousPlay_player_d g p =
       Some (g\<lparr>strategy := (strategy g)[p :=
         (strategy g ! p)[k := dadd (strategy g ! p ! k) 1]]\<rparr>)"
    "\<forall>a<size_m g. action_value_d g p (GetNormalizedStrategy_d g (p XOR 1)) a
        \<le> action_value_d g p (GetNormalizedStrategy_d g (p XOR 1)) k"
    "\<forall>a<k. action_value_d g p (GetNormalizedStrategy_d g (p XOR 1)) a
        < action_value_d g p (GetNormalizedStrategy_d g (p XOR 1)) k"
proof -
  have len: "length (strategy g ! p) = size_m g"
    using ok p by (simp add: game_ok_d_def game_ok_iff)
  from FictitiousPlay_d_loop [OF ok p] obtain k where k:
    "k < size_m g"
    "fold (\<lambda>a (maxSum, bestAction).
             let sum = action_value_d g p (GetNormalizedStrategy_d g (p XOR 1)) a
             in if sum > maxSum then (sum, int a) else (maxSum, bestAction))
       [0..<size_m g] (- DBL_MAX, - 1)
     = (action_value_d g p (GetNormalizedStrategy_d g (p XOR 1)) k, int k)"
    "\<forall>a<size_m g. action_value_d g p (GetNormalizedStrategy_d g (p XOR 1)) a
        \<le> action_value_d g p (GetNormalizedStrategy_d g (p XOR 1)) k"
    "\<forall>a<k. action_value_d g p (GetNormalizedStrategy_d g (p XOR 1)) a
        < action_value_d g p (GetNormalizedStrategy_d g (p XOR 1)) k"
    by blast
  have "FictitiousPlay_player_d g p =
      (case (action_value_d g p (GetNormalizedStrategy_d g (p XOR 1)) k, int k) of
         (maxSum, bestAction) \<Rightarrow>
           if 0 \<le> bestAction \<and> nat bestAction < length (strategy g ! p)
           then Some (g\<lparr>strategy := (strategy g)[p :=
                       (strategy g ! p)[nat bestAction :=
                          dadd (strategy g ! p ! nat bestAction) 1]]\<rparr>)
           else None)"
    unfolding FictitiousPlay_player_d_def Let_def k(2) [unfolded Let_def] ..
  also have "\<dots> =
       Some (g\<lparr>strategy := (strategy g)[p :=
         (strategy g ! p)[k := dadd (strategy g ! p ! k) 1]]\<rparr>)"
    using k(1) len by simp
  finally have res: "FictitiousPlay_player_d g p =
       Some (g\<lparr>strategy := (strategy g)[p :=
         (strategy g ! p)[k := dadd (strategy g ! p ! k) 1]]\<rparr>)" .
  show thesis
    by (rule that [of k]) (use k res in blast)+
qed

section \<open>Every update keeps a binary64 state well-formed\<close>

lemma game_ok_d_nth_iff:
  "game_ok_d g \<longleftrightarrow>
     0 < size_m g \<and> size_m g < 2 ^ 31 \<and> length (payoffs g) = size_m g * size_m g \<and>
     (\<forall>i<size_m g * size_m g. draw_ok (payoffs g ! i) \<and> is_double (payoffs g ! i)) \<and>
     length (strategy g) = 2 \<and> length (cfr g) = 2 \<and>
     (\<forall>p<2. length (strategy g ! p) = size_m g \<and> length (cfr g ! p) = size_m g \<and>
        (\<forall>a<size_m g. 0 \<le> strategy g ! p ! a \<and> is_double (strategy g ! p ! a)
                       \<and> is_double (cfr g ! p ! a)))"
  unfolding game_ok_d_iff game_ok_iff by blast

lemma game_ok_d_MatrixGame_new:
  assumes "0 < n" "n < 2 ^ 31" "length draws = n * n" "list_all draw_ok draws"
    "list_all is_double draws"
  shows "game_ok_d (MatrixGame_new n draws)"
  using assms
  by (simp add: game_ok_d_def game_ok_MatrixGame_new)
    (simp add: MatrixGame_new_def list_all_iff)

lemma game_ok_d_iterationCount:
  "game_ok_d (g\<lparr>iterationCount := t\<rparr>) = game_ok_d g"
  by (simp add: game_ok_d_def game_ok_def)

lemma CFR_player_d_fields [simp]:
  "size_m (CFR_player_d g p) = size_m g"
  "iterationCount (CFR_player_d g p) = iterationCount g"
  "payoffs (CFR_player_d g p) = payoffs g"
  by (simp_all add: CFR_player_d_def Let_def split: prod.split)

lemma CFRPlus_player_d_fields [simp]:
  "size_m (CFRPlus_player_d g p) = size_m g"
  "iterationCount (CFRPlus_player_d g p) = iterationCount g"
  "payoffs (CFRPlus_player_d g p) = payoffs g"
  by (simp_all add: CFRPlus_player_d_def Let_def split: prod.split)

lemma CFR_player_d_strategy:
  "strategy (CFR_player_d g p) = (strategy g)[p :=
     fold (\<lambda>a s. s[a := dadd (s ! a) (GetCurrentStrategy_d g p ! a)]) [0..<size_m g]
       (strategy g ! p)]"
  by (simp add: CFR_player_d_def Let_def split: prod.split)

lemma CFRPlus_player_d_strategy:
  "strategy (CFRPlus_player_d g p) = (strategy g)[p :=
     fold (\<lambda>a s. s[a := dadd (s ! a)
              (dmul (dmul (GetCurrentStrategy_d g p ! a) (real_of_int (iterationCount g)))
                    (real_of_int (iterationCount g)))])
       [0..<size_m g] (strategy g ! p)]"
  by (simp add: CFRPlus_player_d_def Let_def split: prod.split)

lemma CFR_player_d_cfr:
  "\<exists>cfu ev. cfr (CFR_player_d g p) = (cfr g)[p :=
     fold (\<lambda>a r. r[a := dadd (r ! a) (dsub (cfu ! a) ev)]) [0..<size_m g] (cfr g ! p)]"
  by (cases "cfu_ev_d g p (GetCurrentStrategy_d g p) (GetCurrentStrategy_d g (p XOR 1))")
    (auto simp: CFR_player_d_def Let_def)

lemma CFRPlus_player_d_cfr:
  "\<exists>cfu ev. cfr (CFRPlus_player_d g p) = (cfr g)[p :=
     fold (\<lambda>a r. r[a := max 0 (dsub (dadd (r ! a) (cfu ! a)) ev)]) [0..<size_m g]
       (cfr g ! p)]"
  by (cases "cfu_ev_d g p (GetCurrentStrategy_d g p) (GetCurrentStrategy_d g (p XOR 1))")
    (auto simp: CFRPlus_player_d_def Let_def)

lemma CFR_player_d_strategy_nth:
  assumes "game_ok_d g" "p < 2" "q < 2" "a < size_m g"
  shows "strategy (CFR_player_d g p) ! q ! a =
           (if q = p then dadd (strategy g ! q ! a) (GetCurrentStrategy_d g p ! a)
            else strategy g ! q ! a)"
proof -
  have "length (strategy g ! p) = size_m g"
    using assms by (simp add: game_ok_d_nth_iff)
  from fold_update_map [OF this, of "\<lambda>a x. dadd x (GetCurrentStrategy_d g p ! a)"]
  show ?thesis
    using assms by (simp add: CFR_player_d_strategy game_ok_d_nth_iff nth_list_update)
qed

lemma CFRPlus_player_d_strategy_nth:
  assumes "game_ok_d g" "p < 2" "q < 2" "a < size_m g"
  shows "strategy (CFRPlus_player_d g p) ! q ! a =
           (if q = p
            then dadd (strategy g ! q ! a)
              (dmul (dmul (GetCurrentStrategy_d g p ! a) (real_of_int (iterationCount g)))
                    (real_of_int (iterationCount g)))
            else strategy g ! q ! a)"
proof -
  have "length (strategy g ! p) = size_m g"
    using assms by (simp add: game_ok_d_nth_iff)
  from fold_update_map [OF this, of "\<lambda>a x. dadd x
      (dmul (dmul (GetCurrentStrategy_d g p ! a) (real_of_int (iterationCount g)))
            (real_of_int (iterationCount g)))"]
  show ?thesis
    using assms by (simp add: CFRPlus_player_d_strategy game_ok_d_nth_iff nth_list_update)
qed

lemma CFR_player_d_cfr_double:
  assumes "game_ok_d g" "p < 2" "q < 2" "a < size_m g"
  shows "is_double (cfr (CFR_player_d g p) ! q ! a)"
    "length (cfr (CFR_player_d g p)) = 2"
    "length (cfr (CFR_player_d g p) ! q) = size_m g"
proof -
  obtain cfu ev where c: "cfr (CFR_player_d g p) = (cfr g)[p :=
     fold (\<lambda>a r. r[a := dadd (r ! a) (dsub (cfu ! a) ev)]) [0..<size_m g] (cfr g ! p)]"
    using CFR_player_d_cfr by blast
  have len: "length (cfr g ! p) = size_m g"
    using assms by (simp add: game_ok_d_nth_iff)
  note m = fold_update_map [OF len, of "\<lambda>a x. dadd x (dsub (cfu ! a) ev)"]
  show "is_double (cfr (CFR_player_d g p) ! q ! a)"
    "length (cfr (CFR_player_d g p)) = 2"
    "length (cfr (CFR_player_d g p) ! q) = size_m g"
    using assms by (simp_all add: c m game_ok_d_nth_iff nth_list_update)
qed

lemma CFRPlus_player_d_cfr_double:
  assumes "game_ok_d g" "p < 2" "q < 2" "a < size_m g"
  shows "is_double (cfr (CFRPlus_player_d g p) ! q ! a)"
    "length (cfr (CFRPlus_player_d g p)) = 2"
    "length (cfr (CFRPlus_player_d g p) ! q) = size_m g"
    "q = p \<Longrightarrow> 0 \<le> cfr (CFRPlus_player_d g p) ! q ! a"
proof -
  obtain cfu ev where c: "cfr (CFRPlus_player_d g p) = (cfr g)[p :=
     fold (\<lambda>a r. r[a := max 0 (dsub (dadd (r ! a) (cfu ! a)) ev)]) [0..<size_m g]
       (cfr g ! p)]"
    using CFRPlus_player_d_cfr by blast
  have len: "length (cfr g ! p) = size_m g"
    using assms by (simp add: game_ok_d_nth_iff)
  note m = fold_update_map [OF len, of "\<lambda>a x. max 0 (dsub (dadd x (cfu ! a)) ev)"]
  show "is_double (cfr (CFRPlus_player_d g p) ! q ! a)"
    "length (cfr (CFRPlus_player_d g p)) = 2"
    "length (cfr (CFRPlus_player_d g p) ! q) = size_m g"
    "q = p \<Longrightarrow> 0 \<le> cfr (CFRPlus_player_d g p) ! q ! a"
    using assms by (simp_all add: c m game_ok_d_nth_iff nth_list_update is_double_max)
qed

lemma game_ok_d_CFR_player:
  assumes ok: "game_ok_d g" and p: "p < 2"
  shows "game_ok_d (CFR_player_d g p)"
proof -
  have n: "0 < size_m g" using ok by (simp add: game_ok_d_nth_iff)
  have "0 \<le> strategy (CFR_player_d g p) ! q ! a \<and> is_double (strategy (CFR_player_d g p) ! q ! a)"
    if "q < 2" "a < size_m g" for q a
    using ok p that GetCurrentStrategy_d_nonneg [of a g p]
    by (simp add: CFR_player_d_strategy_nth game_ok_d_nth_iff dadd_nonneg)
  moreover have "length (strategy (CFR_player_d g p) ! q) = size_m g" if "q < 2" for q
    using ok that by (cases "q = p") (simp_all add: CFR_player_d_strategy game_ok_d_nth_iff)
  moreover have "length (strategy (CFR_player_d g p)) = 2"
    using ok by (simp add: CFR_player_d_strategy game_ok_d_nth_iff)
  moreover have "length (cfr (CFR_player_d g p)) = 2"
    "\<And>q. q < 2 \<Longrightarrow> length (cfr (CFR_player_d g p) ! q) = size_m g"
    using CFR_player_d_cfr_double(2) [OF ok p p n]
      CFR_player_d_cfr_double(3) [OF ok p _ n] by simp_all
  moreover note CFR_player_d_cfr_double(1) [OF ok p]
  ultimately show ?thesis
    using ok by (simp add: game_ok_d_nth_iff)
qed

lemma game_ok_d_CFRPlus_player:
  assumes ok: "game_ok_d g" and p: "p < 2"
  shows "game_ok_d (CFRPlus_player_d g p)"
proof -
  have n: "0 < size_m g" using ok by (simp add: game_ok_d_nth_iff)
  have w: "0 \<le> dmul (dmul (GetCurrentStrategy_d g p ! a) (real_of_int t)) (real_of_int t)"
    if "a < size_m g" for a t
  proof (cases "0 \<le> real_of_int t")
    case True
    have "0 \<le> GetCurrentStrategy_d g p ! a * real_of_int t"
      using that True by (intro mult_nonneg_nonneg GetCurrentStrategy_d_nonneg)
    then have "0 \<le> dmul (GetCurrentStrategy_d g p ! a) (real_of_int t)"
      by (simp add: dmul_def fl_nonneg)
    then have "0 \<le> dmul (GetCurrentStrategy_d g p ! a) (real_of_int t) * real_of_int t"
      using True by (rule mult_nonneg_nonneg)
    then show ?thesis
      by (simp add: dmul_def [of _ "real_of_int t"] fl_nonneg)
  next
    case False
    then have t: "real_of_int t \<le> 0" by simp
    then have "GetCurrentStrategy_d g p ! a * real_of_int t \<le> 0"
      using that by (intro mult_nonneg_nonpos GetCurrentStrategy_d_nonneg)
    then have "fl (GetCurrentStrategy_d g p ! a * real_of_int t) \<le> 0"
      by (rule fl_le) simp
    then have "dmul (GetCurrentStrategy_d g p ! a) (real_of_int t) \<le> 0"
      by (simp add: dmul_def)
    then have "0 \<le> dmul (GetCurrentStrategy_d g p ! a) (real_of_int t) * real_of_int t"
      using t by (rule mult_nonpos_nonpos)
    then show ?thesis
      by (simp add: dmul_def [of _ "real_of_int t"] fl_nonneg)
  qed
  have "0 \<le> strategy (CFRPlus_player_d g p) ! q ! a
      \<and> is_double (strategy (CFRPlus_player_d g p) ! q ! a)"
    if "q < 2" "a < size_m g" for q a
    using ok p that w [of a "iterationCount g"]
    by (simp add: CFRPlus_player_d_strategy_nth game_ok_d_nth_iff dadd_nonneg)
  moreover have "length (strategy (CFRPlus_player_d g p) ! q) = size_m g" if "q < 2" for q
    using ok that
    by (cases "q = p") (simp_all add: CFRPlus_player_d_strategy game_ok_d_nth_iff)
  moreover have "length (strategy (CFRPlus_player_d g p)) = 2"
    using ok by (simp add: CFRPlus_player_d_strategy game_ok_d_nth_iff)
  moreover have "length (cfr (CFRPlus_player_d g p)) = 2"
    "\<And>q. q < 2 \<Longrightarrow> length (cfr (CFRPlus_player_d g p) ! q) = size_m g"
    using CFRPlus_player_d_cfr_double(2) [OF ok p p n]
      CFRPlus_player_d_cfr_double(3) [OF ok p _ n] by simp_all
  moreover note CFRPlus_player_d_cfr_double(1) [OF ok p]
  ultimately show ?thesis
    using ok by (simp add: game_ok_d_nth_iff)
qed

lemma game_ok_d_FictitiousPlay_player:
  assumes ok: "game_ok_d g" and p: "p < 2"
  shows "\<exists>g'. FictitiousPlay_player_d g p = Some g' \<and> game_ok_d g'"
proof -
  from FictitiousPlay_player_d_result [OF ok p] obtain k where k: "k < size_m g"
    "FictitiousPlay_player_d g p =
       Some (g\<lparr>strategy := (strategy g)[p :=
         (strategy g ! p)[k := dadd (strategy g ! p ! k) 1]]\<rparr>)"
    by blast
  let ?g' = "g\<lparr>strategy := (strategy g)[p :=
         (strategy g ! p)[k := dadd (strategy g ! p ! k) 1]]\<rparr>"
  have nth: "strategy ?g' ! q ! a
      = (if q = p \<and> a = k then dadd (strategy g ! p ! k) 1 else strategy g ! q ! a)"
    if "q < 2" "a < size_m g" for q a
    using ok p that by (simp add: game_ok_d_nth_iff nth_list_update)
  have "0 \<le> strategy ?g' ! q ! a \<and> is_double (strategy ?g' ! q ! a)"
    if "q < 2" "a < size_m g" for q a
    using nth [OF that] ok that p k(1)
    by (simp add: game_ok_d_nth_iff dadd_nonneg del: nth_list_update_eq)
  moreover have "length (strategy ?g' ! q) = size_m g" if "q < 2" for q
    using ok that by (cases "q = p") (simp_all add: game_ok_d_nth_iff)
  ultimately have "game_ok_d ?g'"
    using ok by (simp add: game_ok_d_nth_iff)
  then show ?thesis
    using k(2) by simp
qed

lemma Iteration_d_total:
  assumes ok: "game_ok_d g"
  shows "\<exists>g'. Iteration_d g algorithm = Some g' \<and> game_ok_d g'"
proof -
  let ?g0 = "g\<lparr>iterationCount := iterationCount g + 1\<rparr>"
  have ok0: "game_ok_d ?g0" using ok by (simp add: game_ok_d_iterationCount)
  have fp: "\<exists>g'. FictitiousPlay_d g = Some g' \<and> game_ok_d g'"
  proof -
    from game_ok_d_FictitiousPlay_player [OF ok0, of 0] obtain g1 where
      g1: "FictitiousPlay_player_d ?g0 0 = Some g1" "game_ok_d g1" by auto
    from game_ok_d_FictitiousPlay_player [OF g1(2), of 1] obtain g2 where
      "FictitiousPlay_player_d g1 1 = Some g2" "game_ok_d g2" by auto
    with g1 show ?thesis by (simp add: FictitiousPlay_d_def)
  qed
  have "game_ok_d (CFR_d g)" "game_ok_d (CFRPlus_d g)"
    using ok0 by (simp_all add: CFR_d_def CFRPlus_d_def game_ok_d_CFR_player
        game_ok_d_CFRPlus_player)
  with fp show ?thesis
    by (simp add: Iteration_d_def)
qed

lemma reachable_d_game_ok_d: "reachable_d g \<Longrightarrow> game_ok_d g"
proof (induction rule: reachable_d.induct)
  case (constructed_d n draws)
  then show ?case by (rule game_ok_d_MatrixGame_new)
next
  case (iterated_d g algorithm g')
  from Iteration_d_total [OF iterated_d.IH, of algorithm] iterated_d.hyps(2)
  show ?case by auto
qed

section \<open>A Fictitious Play run in binary64 arithmetic\<close>

lemma FictitiousPlay_player_d_at:
  assumes ok: "game_ok_d g" and p: "p < 2" and k: "k < size_m g"
    and mx: "\<forall>a<size_m g. action_value_d g p (GetNormalizedStrategy_d g (p XOR 1)) a
        \<le> action_value_d g p (GetNormalizedStrategy_d g (p XOR 1)) k"
    and first: "\<forall>a<k. action_value_d g p (GetNormalizedStrategy_d g (p XOR 1)) a
        < action_value_d g p (GetNormalizedStrategy_d g (p XOR 1)) k"
  shows "FictitiousPlay_player_d g p =
       Some (g\<lparr>strategy := (strategy g)[p :=
         (strategy g ! p)[k := dadd (strategy g ! p ! k) 1]]\<rparr>)"
proof -
  let ?f = "action_value_d g p (GetNormalizedStrategy_d g (p XOR 1))"
  from FictitiousPlay_player_d_result [OF ok p] obtain k' where k':
    "k' < size_m g"
    "FictitiousPlay_player_d g p =
       Some (g\<lparr>strategy := (strategy g)[p :=
         (strategy g ! p)[k' := dadd (strategy g ! p ! k') 1]]\<rparr>)"
    "\<forall>a<size_m g. ?f a \<le> ?f k'"
    "\<forall>a<k'. ?f a < ?f k'"
    by blast
  have "k' = k"
  proof (rule ccontr)
    assume "k' \<noteq> k"
    then consider "k' < k" | "k < k'" by linarith
    then show False
    proof cases
      case 1
      with first have "?f k' < ?f k" by simp
      moreover from k'(3) k have "?f k \<le> ?f k'" by simp
      ultimately show False by simp
    next
      case 2
      with k'(4) have "?f k < ?f k'" by simp
      moreover from mx k'(1) have "?f k' \<le> ?f k" by simp
      ultimately show False by simp
    qed
  qed
  with k'(2) show ?thesis by simp
qed

lemma FictitiousPlay_player_d_at2:
  assumes ok: "game_ok_d g" and p: "p < 2" and n: "size_m g = 2"
    and v0: "action_value_d g p (GetNormalizedStrategy_d g (p XOR 1)) 0 = v0"
    and v1: "action_value_d g p (GetNormalizedStrategy_d g (p XOR 1)) 1 = v1"
    and k: "k = (if v0 < v1 then 1 else 0)"
  shows "FictitiousPlay_player_d g p =
       Some (g\<lparr>strategy := (strategy g)[p :=
         (strategy g ! p)[k := dadd (strategy g ! p ! k) 1]]\<rparr>)"
proof (rule FictitiousPlay_player_d_at [OF ok p])
  let ?f = "action_value_d g p (GetNormalizedStrategy_d g (p XOR 1))"
  have cases: "a = 0 \<or> a = 1" if "a < size_m g" for a
    using that n by auto
  show "k < size_m g"
    using k n by simp
  show "\<forall>a<size_m g. ?f a \<le> ?f k"
  proof (intro allI impI)
    fix a assume "a < size_m g"
    then have "a = 0 \<or> a = 1" by (rule cases)
    then show "?f a \<le> ?f k"
      using v0 v1 k by (cases "v0 < v1") auto
  qed
  show "\<forall>a<k. ?f a < ?f k"
  proof (intro allI impI)
    fix a assume "a < k"
    then have "a = 0" "k = 1" "v0 < v1"
      using k by (auto split: if_splits)
    then show "?f a < ?f k"
      using v0 v1 by simp
  qed
qed

lemma fp_state_fields [simp]:
  "size_m (fp_state t s) = 2" "iterationCount (fp_state t s) = t"
  "payoffs (fp_state t s) = [- 1, - 7/8, 0, - 7/8]"
  "strategy (fp_state t s) = s" "cfr (fp_state t s) = [[0, 0], [0, 0]]"
  by (simp_all add: fp_state_def)

lemma fp_state_updates [simp]:
  "(fp_state t s)\<lparr>iterationCount := t'\<rparr> = fp_state t' s"
  "(fp_state t s)\<lparr>strategy := s'\<rparr> = fp_state t s'"
  by (simp_all add: fp_state_def)

lemma fp_game_eq: "fp_game = fp_state 0 [[0, 0], [0, 0]]"
  by (simp add: fp_game_def fp_state_def MatrixGame_new_def replicate_2)

lemma fp_payoffs_draws: "list_all draw_ok [- 1, - 7/8, 0, - 7/8]"
  by (simp add: draw_ok_def)

lemma is_double_7_8: "is_double (7/8)"
  by code_simp

lemma fp_payoffs_double: "list_all is_double [- 1, - 7/8, 0, - 7/8]"
  by (simp add: is_double_7_8)

lemma is_double_counts: "is_double 2" "is_double 3"
  by code_simp+

lemma dadd_counts: "dadd 0 1 = 1" "dadd 1 1 = 2" "dadd 2 1 = 3"
  by code_simp+

lemma game_ok_d_fp_state:
  assumes "length s = 2"
    and "list_all (\<lambda>v. length v = 2 \<and> list_all (\<lambda>x. 0 \<le> x \<and> is_double x) v) s"
  shows "game_ok_d (fp_state t s)"
  using assms
  by (auto simp: game_ok_d_def game_ok_def list_all_iff draw_ok_def is_double_7_8)

lemma reachable_d_fp_game: "reachable_d fp_game"
  unfolding fp_game_def
  by (rule reachable_d.constructed_d) (simp_all add: draw_ok_def is_double_7_8)

lemma fp_values_1:
  "action_value_d (fp_state 1 [[0, 0], [0, 0]]) 0 (GetNormalizedStrategy_d (fp_state 1 [[0, 0], [0, 0]]) (0 XOR 1)) 0 = - 15 / 16"
  "action_value_d (fp_state 1 [[0, 0], [0, 0]]) 0 (GetNormalizedStrategy_d (fp_state 1 [[0, 0], [0, 0]]) (0 XOR 1)) 1 = - 7 / 16"
  by code_simp+

lemma fp_ok_1: "game_ok_d (fp_state 1 [[0, 0], [0, 0]])"
  by (rule game_ok_d_fp_state) (simp_all add: is_double_counts)

lemma fp_step_1:
  "FictitiousPlay_player_d (fp_state 1 [[0, 0], [0, 0]]) 0 = Some (fp_state 1 [[0, 1], [0, 0]])"
proof -
  have "FictitiousPlay_player_d (fp_state 1 [[0, 0], [0, 0]]) 0 =
       Some ((fp_state 1 [[0, 0], [0, 0]])\<lparr>strategy := (strategy (fp_state 1 [[0, 0], [0, 0]]))[0 :=
         (strategy (fp_state 1 [[0, 0], [0, 0]]) ! 0)[1 := dadd (strategy (fp_state 1 [[0, 0], [0, 0]]) ! 0 ! 1) 1]]\<rparr>)"
    by (rule FictitiousPlay_player_d_at2 [OF fp_ok_1 _ _ fp_values_1]) simp_all
  then show ?thesis
    by (simp add: dadd_counts)
qed

lemma fp_values_2:
  "action_value_d (fp_state 1 [[0, 1], [0, 0]]) 1 (GetNormalizedStrategy_d (fp_state 1 [[0, 1], [0, 0]]) (1 XOR 1)) 0 = 0"
  "action_value_d (fp_state 1 [[0, 1], [0, 0]]) 1 (GetNormalizedStrategy_d (fp_state 1 [[0, 1], [0, 0]]) (1 XOR 1)) 1 = 7 / 8"
  by code_simp+

lemma fp_ok_2: "game_ok_d (fp_state 1 [[0, 1], [0, 0]])"
  by (rule game_ok_d_fp_state) (simp_all add: is_double_counts)

lemma fp_step_2:
  "FictitiousPlay_player_d (fp_state 1 [[0, 1], [0, 0]]) 1 = Some (fp_state 1 [[0, 1], [0, 1]])"
proof -
  have "FictitiousPlay_player_d (fp_state 1 [[0, 1], [0, 0]]) 1 =
       Some ((fp_state 1 [[0, 1], [0, 0]])\<lparr>strategy := (strategy (fp_state 1 [[0, 1], [0, 0]]))[1 :=
         (strategy (fp_state 1 [[0, 1], [0, 0]]) ! 1)[1 := dadd (strategy (fp_state 1 [[0, 1], [0, 0]]) ! 1 ! 1) 1]]\<rparr>)"
    by (rule FictitiousPlay_player_d_at2 [OF fp_ok_2 _ _ fp_values_2]) simp_all
  then show ?thesis
    by (simp add: dadd_counts)
qed

lemma fp_values_3:
  "action_value_d (fp_state 2 [[0, 1], [0, 1]]) 0 (GetNormalizedStrategy_d (fp_state 2 [[0, 1], [0, 1]]) (0 XOR 1)) 0 = - 7 / 8"
  "action_value_d (fp_state 2 [[0, 1], [0, 1]]) 0 (GetNormalizedStrategy_d (fp_state 2 [[0, 1], [0, 1]]) (0 XOR 1)) 1 = - 7 / 8"
  by code_simp+

lemma fp_ok_3: "game_ok_d (fp_state 2 [[0, 1], [0, 1]])"
  by (rule game_ok_d_fp_state) (simp_all add: is_double_counts)

lemma fp_step_3:
  "FictitiousPlay_player_d (fp_state 2 [[0, 1], [0, 1]]) 0 = Some (fp_state 2 [[1, 1], [0, 1]])"
proof -
  have "FictitiousPlay_player_d (fp_state 2 [[0, 1], [0, 1]]) 0 =
       Some ((fp_state 2 [[0, 1], [0, 1]])\<lparr>strategy := (strategy (fp_state 2 [[0, 1], [0, 1]]))[0 :=
         (strategy (fp_state 2 [[0, 1], [0, 1]]) ! 0)[0 := dadd (strategy (fp_state 2 [[0, 1], [0, 1]]) ! 0 ! 0) 1]]\<rparr>)"
    by (rule FictitiousPlay_player_d_at2 [OF fp_ok_3 _ _ fp_values_3]) simp_all
  then show ?thesis
    by (simp add: dadd_counts)
qed

lemma fp_values_4:
  "action_value_d (fp_state 2 [[1, 1], [0, 1]]) 1 (GetNormalizedStrategy_d (fp_state 2 [[1, 1], [0, 1]]) (1 XOR 1)) 0 = 1 / 2"
  "action_value_d (fp_state 2 [[1, 1], [0, 1]]) 1 (GetNormalizedStrategy_d (fp_state 2 [[1, 1], [0, 1]]) (1 XOR 1)) 1 = 7 / 8"
  by code_simp+

lemma fp_ok_4: "game_ok_d (fp_state 2 [[1, 1], [0, 1]])"
  by (rule game_ok_d_fp_state) (simp_all add: is_double_counts)

lemma fp_step_4:
  "FictitiousPlay_player_d (fp_state 2 [[1, 1], [0, 1]]) 1 = Some (fp_state 2 [[1, 1], [0, 2]])"
proof -
  have "FictitiousPlay_player_d (fp_state 2 [[1, 1], [0, 1]]) 1 =
       Some ((fp_state 2 [[1, 1], [0, 1]])\<lparr>strategy := (strategy (fp_state 2 [[1, 1], [0, 1]]))[1 :=
         (strategy (fp_state 2 [[1, 1], [0, 1]]) ! 1)[1 := dadd (strategy (fp_state 2 [[1, 1], [0, 1]]) ! 1 ! 1) 1]]\<rparr>)"
    by (rule FictitiousPlay_player_d_at2 [OF fp_ok_4 _ _ fp_values_4]) simp_all
  then show ?thesis
    by (simp add: dadd_counts)
qed

lemma fp_values_5:
  "action_value_d (fp_state 3 [[1, 1], [0, 2]]) 0 (GetNormalizedStrategy_d (fp_state 3 [[1, 1], [0, 2]]) (0 XOR 1)) 0 = - 7 / 8"
  "action_value_d (fp_state 3 [[1, 1], [0, 2]]) 0 (GetNormalizedStrategy_d (fp_state 3 [[1, 1], [0, 2]]) (0 XOR 1)) 1 = - 7 / 8"
  by code_simp+

lemma fp_ok_5: "game_ok_d (fp_state 3 [[1, 1], [0, 2]])"
  by (rule game_ok_d_fp_state) (simp_all add: is_double_counts)

lemma fp_step_5:
  "FictitiousPlay_player_d (fp_state 3 [[1, 1], [0, 2]]) 0 = Some (fp_state 3 [[2, 1], [0, 2]])"
proof -
  have "FictitiousPlay_player_d (fp_state 3 [[1, 1], [0, 2]]) 0 =
       Some ((fp_state 3 [[1, 1], [0, 2]])\<lparr>strategy := (strategy (fp_state 3 [[1, 1], [0, 2]]))[0 :=
         (strategy (fp_state 3 [[1, 1], [0, 2]]) ! 0)[0 := dadd (strategy (fp_state 3 [[1, 1], [0, 2]]) ! 0 ! 0) 1]]\<rparr>)"
    by (rule FictitiousPlay_player_d_at2 [OF fp_ok_5 _ _ fp_values_5]) simp_all
  then show ?thesis
    by (simp add: dadd_counts)
qed

lemma fp_values_6:
  "action_value_d (fp_state 3 [[2, 1], [0, 2]]) 1 (GetNormalizedStrategy_d (fp_state 3 [[2, 1], [0, 2]]) (1 XOR 1)) 0 = 6004799503160661 / 2 ^ 53"
  "action_value_d (fp_state 3 [[2, 1], [0, 2]]) 1 (GetNormalizedStrategy_d (fp_state 3 [[2, 1], [0, 2]]) (1 XOR 1)) 1 = 7881299347898367 / 2 ^ 53"
  by code_simp+

lemma fp_ok_6: "game_ok_d (fp_state 3 [[2, 1], [0, 2]])"
  by (rule game_ok_d_fp_state) (simp_all add: is_double_counts)

lemma fp_step_6:
  "FictitiousPlay_player_d (fp_state 3 [[2, 1], [0, 2]]) 1 = Some (fp_state 3 [[2, 1], [0, 3]])"
proof -
  have "FictitiousPlay_player_d (fp_state 3 [[2, 1], [0, 2]]) 1 =
       Some ((fp_state 3 [[2, 1], [0, 2]])\<lparr>strategy := (strategy (fp_state 3 [[2, 1], [0, 2]]))[1 :=
         (strategy (fp_state 3 [[2, 1], [0, 2]]) ! 1)[1 := dadd (strategy (fp_state 3 [[2, 1], [0, 2]]) ! 1 ! 1) 1]]\<rparr>)"
    by (rule FictitiousPlay_player_d_at2 [OF fp_ok_6 _ _ fp_values_6]) simp_all
  then show ?thesis
    by (simp add: dadd_counts)
qed

lemma fp_iteration_1:
  "Iteration_d (fp_state 0 [[0, 0], [0, 0]]) 0 = Some (fp_state 1 [[0, 1], [0, 1]])"
  by (simp add: Iteration_d_def FictitiousPlay_d_def fp_step_1 fp_step_2 [unfolded One_nat_def])

lemma fp_iteration_2:
  "Iteration_d (fp_state 1 [[0, 1], [0, 1]]) 0 = Some (fp_state 2 [[1, 1], [0, 2]])"
  by (simp add: Iteration_d_def FictitiousPlay_d_def fp_step_3 fp_step_4 [unfolded One_nat_def])

lemma fp_iteration_3:
  "Iteration_d (fp_state 2 [[1, 1], [0, 2]]) 0 = Some (fp_state 3 [[2, 1], [0, 3]])"
  by (simp add: Iteration_d_def FictitiousPlay_d_def fp_step_5 fp_step_6 [unfolded One_nat_def])

lemma reachable_d_fp_state_3: "reachable_d (fp_state 3 [[2, 1], [0, 3]])"
  using reachable_d_fp_game fp_iteration_1 fp_iteration_2 fp_iteration_3
  unfolding fp_game_eq
  by (blast intro: reachable_d.iterated_d)

end
